theory Spec2Isabelle
  imports Main "HOL-Library.AList"
begin

section \<open>JavaScript values\<close>

text \<open>
  The cross-organization collection methods (\<^verbatim>\<open>createMethods\<close>) are written over
  untyped JavaScript values. Data is modelled by \<open>jsval\<close>: \<open>undefined\<close>, \<open>null\<close>,
  booleans, numbers (integers only: \<open>NaN\<close> and fractions are left out), strings, arrays
  and plain objects. An object is the list of its own enumerable properties in
  enumeration order; where a key is repeated in the list, its first occurrence is the
  property (a JavaScript object has one value per key). Inherited members
  (\<open>Object.prototype\<close>) are not modelled, and integer-like keys are enumerated where
  they stand in the list.
\<close>

datatype jsval =
    Undefined
  | Null
  | Bool bool
  | Num int
  | Str string
  | Arr "jsval list"
  | Obj "(string \<times> jsval) list"

type_synonym obj = "(string \<times> jsval) list"

text \<open>
  A value in error position: an \<open>Error\<close> object created with a message, a
  \<open>TypeError\<close> raised by the engine, or any other value a collaborator passes as the
  first argument of a callback (\<open>ErrValue Null\<close> is "no error").
\<close>

datatype js_error =
    Error string
  | TypeError
  | ErrValue jsval

text \<open>The conversion to boolean that \<^verbatim>\<open>if (x)\<close>, \<^verbatim>\<open>!x\<close> and \<^verbatim>\<open>x || y\<close> apply.\<close>

fun truthy :: "jsval \<Rightarrow> bool" where
  "truthy Undefined = False"
| "truthy Null = False"
| "truthy (Bool b) = b"
| "truthy (Num n) = (n \<noteq> 0)"
| "truthy (Str s) = (s \<noteq> [])"
| "truthy (Arr xs) = True"
| "truthy (Obj ps) = True"

fun err_truthy :: "js_error \<Rightarrow> bool" where
  "err_truthy (ErrValue v) = truthy v"
| "err_truthy (Error m) = True"
| "err_truthy TypeError = True"

fun nullish :: "jsval \<Rightarrow> bool" where
  "nullish Undefined = True"
| "nullish Null = True"
| "nullish v = False"

text \<open>Decimal rendering of an array index, as JavaScript names index properties.\<close>

fun show_nat :: "nat \<Rightarrow> string" where
  "show_nat n =
     (if n < 10 then [char_of (48 + n)]
      else show_nat (n div 10) @ [char_of (48 + n mod 10)])"

declare show_nat.simps [simp del]

text \<open>
  \<^verbatim>\<open>String.prototype.toLowerCase\<close> on the ASCII letters (organization logins are
  ASCII: letters, digits and hyphens).
\<close>

definition to_lower_char :: "char \<Rightarrow> char" where
  "to_lower_char c =
     (let n = (of_char c :: nat) in if 65 \<le> n \<and> n \<le> 90 then char_of (n + 32) else c)"

definition toLowerCase :: "string \<Rightarrow> string" where
  "toLowerCase s = map to_lower_char s"

text \<open>
  The own enumerable properties of a value, which is what \<^verbatim>\<open>Object.assign\<close> copies
  from a source: the properties of an object, the indexed elements of an array, the
  indexed characters of a string, nothing for the other values.
\<close>

fun own_props :: "jsval \<Rightarrow> obj" where
  "own_props (Obj ps) = AList.clearjunk ps"
| "own_props (Arr xs) = zip (map show_nat [0..<length xs]) xs"
| "own_props (Str s) = zip (map show_nat [0..<length s]) (map (\<lambda>c. Str [c]) s)"
| "own_props v = []"

text \<open>
  Reading \<^verbatim>\<open>v.k\<close> (or \<^verbatim>\<open>v[k]\<close>) on a value that is neither \<open>undefined\<close> nor
  \<open>null\<close>: the own property, the \<open>length\<close> of an array or a string, \<open>undefined\<close>
  otherwise. On \<open>undefined\<close> and \<open>null\<close> the read raises a \<open>TypeError\<close>; each
  function below tests \<open>nullish\<close> first wherever the source reads a property of a value
  that may be one of them.
\<close>

fun get_prop :: "jsval \<Rightarrow> string \<Rightarrow> jsval" where
  "get_prop (Obj ps) k = (case map_of ps k of Some v \<Rightarrow> v | None \<Rightarrow> Undefined)"
| "get_prop (Arr xs) k =
     (if k = ''length'' then Num (int (length xs))
      else case map_of (own_props (Arr xs)) k of Some v \<Rightarrow> v | None \<Rightarrow> Undefined)"
| "get_prop (Str s) k =
     (if k = ''length'' then Num (int (length s))
      else case map_of (own_props (Str s)) k of Some v \<Rightarrow> v | None \<Rightarrow> Undefined)"
| "get_prop v k = Undefined"

text \<open>\<^verbatim>\<open>Object.getOwnPropertyNames(v)\<close> for a value that is not nullish.\<close>

fun getOwnPropertyNames :: "jsval \<Rightarrow> string list" where
  "getOwnPropertyNames (Obj ps) = map fst (AList.clearjunk ps)"
| "getOwnPropertyNames (Arr xs) = map show_nat [0..<length xs] @ [''length'']"
| "getOwnPropertyNames (Str s) = map show_nat [0..<length s] @ [''length'']"
| "getOwnPropertyNames v = []"

text \<open>
  \<^verbatim>\<open>Object.assign(target, source)\<close> on a target object: every own enumerable property
  of the source is written to the target, in order (\<^verbatim>\<open>o[k] = v\<close> is
  \<open>AList.update k v\<close>: an existing key keeps its place, a new key goes last;
  \<^verbatim>\<open>delete o.k\<close> is \<open>AList.delete k\<close>).
\<close>

definition object_assign :: "obj \<Rightarrow> jsval \<Rightarrow> obj" where
  "object_assign target source =
     fold (\<lambda>(k, v) t. AList.update k v t) (own_props source) target"

section \<open>Collaborators\<close>

text \<open>
  A collection method of the collections client,
  \<^verbatim>\<open>method(token, options, cacheOptions, callback)\<close>, is the function from its three
  arguments to the pair \<open>(error, result)\<close> it hands to its callback (it calls the
  callback once). The collections client maps a method name to a method, or to nothing.
  What a run does besides returning is recorded as a list of events: the fetches it
  issued, with their arguments, and the warnings it wrote with \<^verbatim>\<open>console.warn\<close>.
\<close>

type_synonym collection_method = "jsval \<Rightarrow> jsval \<Rightarrow> jsval \<Rightarrow> js_error \<times> jsval"

type_synonym collections_client = "string \<Rightarrow> collection_method option"

datatype event =
    Fetched jsval jsval jsval
  | Warned string

text \<open>How a promise settles.\<close>

datatype outcome =
    Resolved jsval
  | Rejected js_error

text \<open>What an iteratee of \<^verbatim>\<open>async.eachLimit\<close> tells the loop: \<^verbatim>\<open>next()\<close> or \<^verbatim>\<open>next(error)\<close>.\<close>

datatype 'a step =
    Next 'a
  | Fail js_error

section \<open>generalizedCollectionMethod\<close>

text \<open>
  The execution context the method fills in. \<^verbatim>\<open>CompositeApiContext\<close> and the
  composite engine are not part of these sources: the constructor is the parameter
  \<open>new_context\<close> and the engine's \<^verbatim>\<open>execute\<close> the parameter \<open>execute\<close>, which
  returns how the promise settles and the events of the run. \<^verbatim>\<open>overrideToken\<close> is
  taken to store the token; the assignment of \<^verbatim>\<open>libraryContext\<close>, a value fixed when
  the methods are created, is left out.
\<close>

record 'm api_context =
  ctx_apiName :: string
  ctx_method :: 'm
  ctx_options :: jsval
  ctx_maxAgeSeconds :: jsval
  ctx_token :: jsval
  ctx_backgroundRefresh :: jsval

text \<open>
  The fifth argument: a cache policy, or the callback in its place (then the source
  takes \<open>{}\<close> as the policy). The caller always passes a callback, as the fifth or
  as the sixth argument. The method reads \<^verbatim>\<open>cacheOptions.maxAgeSeconds\<close> without a
  test, so a policy that is \<open>undefined\<close> or \<open>null\<close> is a \<open>TypeError\<close>.
\<close>

datatype cache_arg =
    Policy jsval
  | PolicyOmitted

fun cache_arg_value :: "cache_arg \<Rightarrow> jsval" where
  "cache_arg_value (Policy c) = c"
| "cache_arg_value PolicyOmitted = Obj []"

text \<open>What the caller observes: an exception, or its callback called with \<open>(error, value)\<close>.\<close>

datatype result =
    Threw js_error
  | CalledBack js_error jsval

definition apiContext_for ::
  "(string \<Rightarrow> 'm \<Rightarrow> jsval \<Rightarrow> 'm api_context) \<Rightarrow> jsval \<Rightarrow> string \<Rightarrow> 'm \<Rightarrow> jsval \<Rightarrow> jsval
     \<Rightarrow> 'm api_context" where
  "apiContext_for new_context token apiName method options cacheOptions =
     (let apiContext = new_context apiName method options;
          apiContext = apiContext\<lparr>ctx_maxAgeSeconds :=
            (if truthy (get_prop cacheOptions ''maxAgeSeconds'')
             then get_prop cacheOptions ''maxAgeSeconds'' else Num 600)\<rparr>;
          apiContext = apiContext\<lparr>ctx_token := token\<rparr>
      in if truthy (get_prop cacheOptions ''backgroundRefresh'')
         then apiContext\<lparr>ctx_backgroundRefresh := Bool True\<rparr>
         else apiContext)"

definition generalizedCollectionMethod ::
  "(string \<Rightarrow> 'm \<Rightarrow> jsval \<Rightarrow> 'm api_context) \<Rightarrow> ('m api_context \<Rightarrow> outcome \<times> event list)
     \<Rightarrow> jsval \<Rightarrow> string \<Rightarrow> 'm \<Rightarrow> jsval \<Rightarrow> cache_arg \<Rightarrow> result \<times> event list" where
  "generalizedCollectionMethod new_context execute token apiName method options cacheArg =
     (let cacheOptions = cache_arg_value cacheArg in
      if nullish cacheOptions then (Threw TypeError, [])
      else
        (case execute (apiContext_for new_context token apiName method options cacheOptions) of
           (Resolved ok, log) \<Rightarrow> (CalledBack (ErrValue Null) ok, log)
         | (Rejected e, log) \<Rightarrow> (CalledBack e Undefined, log)))"

section \<open>getCrossOrganizationMethod\<close>

text \<open>Lines 61 to 65: the options of the call for one organization.\<close>

definition localOptions_for :: "jsval \<Rightarrow> string \<Rightarrow> obj" where
  "localOptions_for options orgName =
     (let localOptions = object_assign [] options;
          localOptions = AList.update ''org'' (Str orgName) localOptions
      in if \<not> truthy (get_prop (Obj localOptions) ''per_page'')
         then AList.update ''per_page'' (Num 100) localOptions
         else localOptions)"

text \<open>Lines 66 to 69 (and again 116 to 119): the cache policy of the calls of the fan-out.\<close>

definition localCacheOptions_for :: "jsval \<Rightarrow> obj" where
  "localCacheOptions_for cacheOptions =
     (let localCacheOptions = object_assign [] cacheOptions
      in if truthy (get_prop (Obj localCacheOptions) ''individualMaxAgeSeconds'')
         then AList.update ''maxAgeSeconds''
                (get_prop (Obj localCacheOptions) ''individualMaxAgeSeconds'') localCacheOptions
         else localCacheOptions)"

definition data_warning :: "string \<Rightarrow> string \<Rightarrow> string" where
  "data_warning apiName methodName =
     apiName @ '' '' @ methodName
       @ '' result has data that is being used instead of the parent object''"

text \<open>
  The iteratee of the fan-out for one organization: \<open>orgs\<close> is \<^verbatim>\<open>values.orgs\<close> so far.
\<close>

definition org_iteratee ::
  "collection_method \<Rightarrow> string \<Rightarrow> string \<Rightarrow> jsval \<Rightarrow> jsval \<Rightarrow> obj \<Rightarrow> string \<Rightarrow> jsval
     \<Rightarrow> obj step \<times> event list" where
  "org_iteratee method apiName methodName options cacheOptions orgs orgName token =
     (let localOptions = Obj (localOptions_for options orgName);
          localCacheOptions = Obj (localCacheOptions_for cacheOptions);
          fetched = Fetched token localOptions localCacheOptions
      in case method token localOptions localCacheOptions of
        (orgError, orgValues) \<Rightarrow>
          if err_truthy orgError then (Fail orgError, [fetched])
          else if \<not> truthy orgValues then (Fail (Error ''No result''), [fetched])
          else if truthy (get_prop orgValues ''data'') then
            (Next (AList.update orgName (get_prop orgValues ''data'') orgs),
             [fetched, Warned (data_warning apiName methodName)])
          else (Next (AList.update orgName orgValues orgs), [fetched]))"

text \<open>
  \<^verbatim>\<open>async.eachOfLimit(orgsAndTokens, 1, iteratee, done)\<close>: one organization at a time,
  in the order of the token set's properties; the first \<^verbatim>\<open>next(error)\<close> ends the loop.
\<close>

fun eachOfLimit_orgs ::
  "collection_method \<Rightarrow> string \<Rightarrow> string \<Rightarrow> jsval \<Rightarrow> jsval \<Rightarrow> obj \<Rightarrow> obj
     \<Rightarrow> obj step \<times> event list" where
  "eachOfLimit_orgs method apiName methodName options cacheOptions [] orgs = (Next orgs, [])"
| "eachOfLimit_orgs method apiName methodName options cacheOptions ((orgName, token) # rest) orgs =
     (case org_iteratee method apiName methodName options cacheOptions orgs orgName token of
        (Fail e, log) \<Rightarrow> (Fail e, log)
      | (Next orgs', log) \<Rightarrow>
          (case eachOfLimit_orgs method apiName methodName options cacheOptions rest orgs' of
             (r, log') \<Rightarrow> (r, log @ log')))"

text \<open>
  The thunk \<^verbatim>\<open>actualCrossOrgMethod\<close>: the token set is a plain object keyed by
  organization login (the library's treatment of a collection with a numeric
  \<open>length\<close> property as array-like is left out).
\<close>

definition actualCrossOrgMethod ::
  "collection_method \<Rightarrow> obj \<Rightarrow> string \<Rightarrow> string \<Rightarrow> jsval \<Rightarrow> jsval \<Rightarrow> outcome \<times> event list" where
  "actualCrossOrgMethod method orgsAndTokens apiName methodName options cacheOptions =
     (case eachOfLimit_orgs method apiName methodName options cacheOptions
             (AList.clearjunk orgsAndTokens) [] of
        (Fail error, log) \<Rightarrow> (Rejected error, log)
      | (Next orgs, log) \<Rightarrow>
          (Resolved (Obj [(''data'', Obj [(''orgs'', Obj orgs)]), (''headers'', Obj [])]), log))"

definition getCrossOrganizationMethod ::
  "collections_client
     \<Rightarrow> (string \<Rightarrow> outcome \<times> event list \<Rightarrow> jsval \<Rightarrow> (outcome \<times> event list) api_context)
     \<Rightarrow> ((outcome \<times> event list) api_context \<Rightarrow> outcome \<times> event list)
     \<Rightarrow> obj \<Rightarrow> string \<Rightarrow> string \<Rightarrow> jsval \<Rightarrow> cache_arg \<Rightarrow> result \<times> event list" where
  "getCrossOrganizationMethod collectionsClient new_context execute orgsAndTokens apiName
       methodName options cacheArg =
     (case collectionsClient methodName of
        None \<Rightarrow>
          (Threw (Error ''No method called undefined defined in the collections client.''), [])
      | Some method \<Rightarrow>
          generalizedCollectionMethod new_context execute (Obj orgsAndTokens) apiName
            (actualCrossOrgMethod method orgsAndTokens apiName methodName options
               (cache_arg_value cacheArg))
            options cacheArg)"

section \<open>crossOrganizationCollection\<close>

text \<open>
  An iteratee of the nested loops ends in \<^verbatim>\<open>next()\<close>, in \<^verbatim>\<open>next(error)\<close> or in an
  exception. The pipeline as a whole settles its promise, or an exception leaves the
  callback of the outer function and the promise is never settled.
\<close>

datatype 'a flow =
    Continue 'a
  | Abort js_error
  | Throw js_error

datatype run =
    Settles outcome
  | Throws js_error

text \<open>Lines 124 to 129: the clone of an entity.\<close>

definition cloneTarget_for :: "bool \<Rightarrow> string \<Rightarrow> obj" where
  "cloneTarget_for optionalSetOrganizationLogin orgName =
     (if optionalSetOrganizationLogin
      then [(''organization'', Obj [(''login'', Str orgName)])]
      else [])"

definition entityClone_for :: "bool \<Rightarrow> string \<Rightarrow> jsval \<Rightarrow> obj" where
  "entityClone_for optionalSetOrganizationLogin orgName orgEntity =
     object_assign (cloneTarget_for optionalSetOrganizationLogin orgName) orgEntity"

text \<open>
  Lines 130 to 143: the \<^verbatim>\<open>switch\<close> on the inner key type. \<open>Inl\<close> is the exception:
  the \<open>Error\<close> of the default case, or the \<open>TypeError\<close> of reading \<^verbatim>\<open>orgEntity.id\<close>
  or \<^verbatim>\<open>orgEntity.name\<close> on \<open>undefined\<close> or \<open>null\<close>.
\<close>

definition localOptionsTarget_for :: "string \<Rightarrow> string \<Rightarrow> jsval \<Rightarrow> js_error + obj" where
  "localOptionsTarget_for innerKeyType orgName orgEntity =
     (let localOptionsTarget = [(''per_page'', Num 100)] in
      if innerKeyType = ''team'' then
        (if nullish orgEntity then Inl TypeError
         else Inr (AList.update ''team_id'' (get_prop orgEntity ''id'') localOptionsTarget))
      else if innerKeyType = ''repo'' then
        (let localOptionsTarget = AList.update ''owner'' (Str orgName) localOptionsTarget in
         if nullish orgEntity then Inl TypeError
         else Inr (AList.update ''repo'' (get_prop orgEntity ''name'') localOptionsTarget))
      else Inl (Error (''Unsupported inner key type '' @ innerKeyType)))"

text \<open>Lines 144 to 146: the outer options overlaid, the cache policy keys removed.\<close>

definition inner_localOptions :: "obj \<Rightarrow> jsval \<Rightarrow> obj" where
  "inner_localOptions localOptionsTarget options =
     (let localOptions = object_assign localOptionsTarget options;
          localOptions = AList.delete ''maxAgeSeconds'' localOptions
      in AList.delete ''backgroundRefresh'' localOptions)"

definition no_token_message :: "string \<Rightarrow> string" where
  "no_token_message orgName =
     ''No token available for the org '' @ [CHR 0x22] @ orgName @ [CHR 0x22]"

definition inner_data_message :: "string \<Rightarrow> string" where
  "inner_data_message collectionMethodName =
     ''innerEntities.data set from the '' @ collectionMethodName @ '' collection method call''"

text \<open>
  The iteratee for one entity (lines 123 to 164); \<open>entities\<close> is the output array so
  far. Calling a method the collections client does not have is a \<open>TypeError\<close>.
\<close>

definition entity_iteratee ::
  "collections_client \<Rightarrow> obj \<Rightarrow> jsval \<Rightarrow> obj \<Rightarrow> string \<Rightarrow> string \<Rightarrow> string \<Rightarrow> bool \<Rightarrow> string
     \<Rightarrow> jsval list \<Rightarrow> jsval \<Rightarrow> jsval list flow \<times> event list" where
  "entity_iteratee collectionsClient orgsAndTokens options localCacheOptions innerKeyType
       collectionMethodName collectionKey optionalSetOrganizationLogin orgName entities orgEntity =
     (let entityClone = entityClone_for optionalSetOrganizationLogin orgName orgEntity in
      case localOptionsTarget_for innerKeyType orgName orgEntity of
        Inl e \<Rightarrow> (Throw e, [])
      | Inr localOptionsTarget \<Rightarrow>
          (let localOptions = inner_localOptions localOptionsTarget options;
               token = get_prop (Obj orgsAndTokens) (toLowerCase orgName)
           in if \<not> truthy token then (Abort (Error (no_token_message orgName)), [])
              else
                (case collectionsClient collectionMethodName of
                   None \<Rightarrow> (Throw TypeError, [])
                 | Some inner \<Rightarrow>
                     (case inner token (Obj localOptions) (Obj localCacheOptions) of
                        (collectionsError, innerEntities) \<Rightarrow>
                          (let fetched = Fetched token (Obj localOptions) (Obj localCacheOptions);
                               collectionsError =
                                 (if \<not> err_truthy collectionsError \<and> truthy innerEntities
                                       \<and> truthy (get_prop innerEntities ''data'')
                                  then Error (inner_data_message collectionMethodName)
                                  else collectionsError)
                           in if err_truthy collectionsError then (Continue entities, [fetched])
                              else
                                (Continue
                                   (entities
                                      @ [Obj (AList.update collectionKey innerEntities entityClone)]),
                                 [fetched]))))))"

text \<open>
  The items \<^verbatim>\<open>async.eachLimit\<close> visits in a collection: the elements of an array, the
  characters of a string, the property values of an object, nothing otherwise (a falsy
  collection ends the loop at once). The library's treatment of an object with a
  numeric \<open>length\<close> property as array-like is left out.
\<close>

fun eachLimit_items :: "jsval \<Rightarrow> jsval list" where
  "eachLimit_items (Arr xs) = xs"
| "eachLimit_items (Str s) = map (\<lambda>c. Str [c]) s"
| "eachLimit_items (Obj ps) = map snd (AList.clearjunk ps)"
| "eachLimit_items v = []"

text \<open>The inner loop: the entities of one organization, one at a time, in order.\<close>

fun eachLimit_entities ::
  "collections_client \<Rightarrow> obj \<Rightarrow> jsval \<Rightarrow> obj \<Rightarrow> string \<Rightarrow> string \<Rightarrow> string \<Rightarrow> bool \<Rightarrow> string
     \<Rightarrow> jsval list \<Rightarrow> jsval list \<Rightarrow> jsval list flow \<times> event list" where
  "eachLimit_entities collectionsClient orgsAndTokens options localCacheOptions innerKeyType
       collectionMethodName collectionKey optionalSetOrganizationLogin orgName [] entities =
     (Continue entities, [])"
| "eachLimit_entities collectionsClient orgsAndTokens options localCacheOptions innerKeyType
       collectionMethodName collectionKey optionalSetOrganizationLogin orgName
       (orgEntity # rest) entities =
     (case entity_iteratee collectionsClient orgsAndTokens options localCacheOptions innerKeyType
             collectionMethodName collectionKey optionalSetOrganizationLogin orgName entities
             orgEntity of
        (Continue entities', log) \<Rightarrow>
          (case eachLimit_entities collectionsClient orgsAndTokens options localCacheOptions
                  innerKeyType collectionMethodName collectionKey optionalSetOrganizationLogin
                  orgName rest entities' of
             (r, log') \<Rightarrow> (r, log @ log'))
      | (Abort e, log) \<Rightarrow> (Abort e, log)
      | (Throw e, log) \<Rightarrow> (Throw e, log))"

text \<open>The outer loop: the organizations of the listing, one at a time, in order.\<close>

fun eachLimit_orgNames ::
  "collections_client \<Rightarrow> obj \<Rightarrow> jsval \<Rightarrow> obj \<Rightarrow> string \<Rightarrow> string \<Rightarrow> string \<Rightarrow> bool \<Rightarrow> jsval
     \<Rightarrow> string list \<Rightarrow> jsval list \<Rightarrow> jsval list flow \<times> event list" where
  "eachLimit_orgNames collectionsClient orgsAndTokens options localCacheOptions innerKeyType
       collectionMethodName collectionKey optionalSetOrganizationLogin orgs [] entities =
     (Continue entities, [])"
| "eachLimit_orgNames collectionsClient orgsAndTokens options localCacheOptions innerKeyType
       collectionMethodName collectionKey optionalSetOrganizationLogin orgs (orgName # rest)
       entities =
     (let orgEntities = get_prop orgs orgName in
      case eachLimit_entities collectionsClient orgsAndTokens options localCacheOptions
             innerKeyType collectionMethodName collectionKey optionalSetOrganizationLogin orgName
             (eachLimit_items orgEntities) entities of
        (Continue entities', log) \<Rightarrow>
          (case eachLimit_orgNames collectionsClient orgsAndTokens options localCacheOptions
                  innerKeyType collectionMethodName collectionKey optionalSetOrganizationLogin
                  orgs rest entities' of
             (r, log') \<Rightarrow> (r, log @ log'))
      | (Abort e, log) \<Rightarrow> (Abort e, log)
      | (Throw e, log) \<Rightarrow> (Throw e, log))"

definition no_data_message :: string where
  "no_data_message =
     ''crossOrganizationCollection inner outerFunction returned an entity but no entity.data property was present''"

text \<open>
  The thunk that \<^verbatim>\<open>crossOrganizationCollection\<close> returns. The outer function is the
  function from its arguments (the token set, \<open>{}\<close>, the cache policy) to the pair
  \<open>(error, data)\<close> it hands to its callback; the events are those of the nested loops.
\<close>

definition crossOrganizationCollection ::
  "collections_client \<Rightarrow> obj \<Rightarrow> jsval \<Rightarrow> jsval \<Rightarrow> string
     \<Rightarrow> (obj \<Rightarrow> jsval \<Rightarrow> jsval \<Rightarrow> js_error \<times> jsval) \<Rightarrow> string \<Rightarrow> string \<Rightarrow> bool
     \<Rightarrow> run \<times> event list" where
  "crossOrganizationCollection collectionsClient orgsAndTokens options cacheOptions innerKeyType
       outerFunction collectionMethodName collectionKey optionalSetOrganizationLogin =
     (case outerFunction orgsAndTokens (Obj []) cacheOptions of
        (outerError, data) \<Rightarrow>
          (let noData = \<not> err_truthy outerError \<and> truthy data \<and> \<not> truthy (get_prop data ''data'');
               entitiesByOrg =
                 (if \<not> noData \<and> \<not> err_truthy outerError \<and> truthy data
                       \<and> truthy (get_prop data ''data'')
                  then get_prop data ''data'' else Null);
               outerError = (if noData then Error no_data_message else outerError)
           in if err_truthy outerError then (Settles (Rejected outerError), [])
              else
                (let localCacheOptions = localCacheOptions_for cacheOptions in
                 if nullish entitiesByOrg then (Throws TypeError, [])
                 else if nullish (get_prop entitiesByOrg ''orgs'') then (Throws TypeError, [])
                 else
                   (case eachLimit_orgNames collectionsClient orgsAndTokens options
                           localCacheOptions innerKeyType collectionMethodName collectionKey
                           optionalSetOrganizationLogin (get_prop entitiesByOrg ''orgs'')
                           (getOwnPropertyNames (get_prop entitiesByOrg ''orgs'')) [] of
                      (Continue entities, log) \<Rightarrow>
                        (Settles (Resolved (Obj [(''data'', Arr entities), (''headers'', Obj [])])),
                         log)
                    | (Abort error, log) \<Rightarrow> (Settles (Rejected error), log)
                    | (Throw e, log) \<Rightarrow> (Throws e, log)))))"

section \<open>Objects by reference\<close>

text \<open>
  Whether the fan-out writes to the objects of its caller is a question about
  references. Here the objects live in a store, a reference is an index into it, and
  lines 61 to 69 are written once more over references: \<^verbatim>\<open>{}\<close> allocates,
  \<^verbatim>\<open>Object.assign\<close> and the assignments write to the object their reference names.
\<close>

type_synonym heap = "obj list"

definition heap_alloc :: "heap \<Rightarrow> obj \<Rightarrow> heap \<times> nat" where
  "heap_alloc h ob = (h @ [ob], length h)"

definition heap_assign :: "heap \<Rightarrow> nat \<Rightarrow> nat \<Rightarrow> heap" where
  "heap_assign h target source = h[target := object_assign (h ! target) (Obj (h ! source))]"

definition heap_set :: "heap \<Rightarrow> nat \<Rightarrow> string \<Rightarrow> jsval \<Rightarrow> heap" where
  "heap_set h r k v = h[r := AList.update k v (h ! r)]"

definition heap_get :: "heap \<Rightarrow> nat \<Rightarrow> string \<Rightarrow> jsval" where
  "heap_get h r k = get_prop (Obj (h ! r)) k"

text \<open>
  Lines 61 to 69 for the references \<open>options\<close> and \<open>cacheOptions\<close> of two objects of
  the store: the new store and the references \<^verbatim>\<open>localOptions\<close> and
  \<^verbatim>\<open>localCacheOptions\<close>.
\<close>

definition prepare_org_call :: "heap \<Rightarrow> nat \<Rightarrow> nat \<Rightarrow> string \<Rightarrow> heap \<times> nat \<times> nat" where
  "prepare_org_call h options cacheOptions orgName =
     (case heap_alloc h [] of
        (h, target) \<Rightarrow>
          (let h = heap_assign h target options;
               localOptions = target;
               h = heap_set h localOptions ''org'' (Str orgName);
               h = (if \<not> truthy (heap_get h localOptions ''per_page'')
                    then heap_set h localOptions ''per_page'' (Num 100) else h)
           in case heap_alloc h [] of
             (h, target) \<Rightarrow>
               (let h = heap_assign h target cacheOptions;
                    localCacheOptions = target;
                    h = (if truthy (heap_get h localCacheOptions ''individualMaxAgeSeconds'')
                         then heap_set h localCacheOptions ''maxAgeSeconds''
                                (heap_get h localCacheOptions ''individualMaxAgeSeconds'')
                         else h)
                in (h, localOptions, localCacheOptions))))"

text \<open>
  The fan-out over references: the iteratee takes the references of the caller's
  options and cache policy, builds the arguments of the call in the store as lines 61
  to 69 do, and hands the method the two objects it built; the rest of the iteratee,
  the loop and the thunk are as above, with the store passed along
  (\<^verbatim>\<open>values.orgs\<close> stays a value: no statement is about its identity).
\<close>

definition org_iteratee_heap ::
  "collection_method \<Rightarrow> string \<Rightarrow> string \<Rightarrow> heap \<Rightarrow> nat \<Rightarrow> nat \<Rightarrow> obj \<Rightarrow> string \<Rightarrow> jsval
     \<Rightarrow> (obj step \<times> event list) \<times> heap" where
  "org_iteratee_heap method apiName methodName h options cacheOptions orgs orgName token =
     (case prepare_org_call h options cacheOptions orgName of
        (h, localOptions, localCacheOptions) \<Rightarrow>
          (let fetched = Fetched token (Obj (h ! localOptions)) (Obj (h ! localCacheOptions))
           in case method token (Obj (h ! localOptions)) (Obj (h ! localCacheOptions)) of
             (orgError, orgValues) \<Rightarrow>
               if err_truthy orgError then ((Fail orgError, [fetched]), h)
               else if \<not> truthy orgValues then ((Fail (Error ''No result''), [fetched]), h)
               else if truthy (get_prop orgValues ''data'') then
                 ((Next (AList.update orgName (get_prop orgValues ''data'') orgs),
                   [fetched, Warned (data_warning apiName methodName)]), h)
               else ((Next (AList.update orgName orgValues orgs), [fetched]), h)))"

fun eachOfLimit_orgs_heap ::
  "collection_method \<Rightarrow> string \<Rightarrow> string \<Rightarrow> heap \<Rightarrow> nat \<Rightarrow> nat \<Rightarrow> obj \<Rightarrow> obj
     \<Rightarrow> (obj step \<times> event list) \<times> heap" where
  "eachOfLimit_orgs_heap method apiName methodName h options cacheOptions [] orgs =
     ((Next orgs, []), h)"
| "eachOfLimit_orgs_heap method apiName methodName h options cacheOptions
       ((orgName, token) # rest) orgs =
     (case org_iteratee_heap method apiName methodName h options cacheOptions orgs orgName
             token of
        ((Fail e, log), h) \<Rightarrow> ((Fail e, log), h)
      | ((Next orgs', log), h) \<Rightarrow>
          (case eachOfLimit_orgs_heap method apiName methodName h options cacheOptions rest
                  orgs' of
             ((r, log'), h) \<Rightarrow> ((r, log @ log'), h)))"

definition actualCrossOrgMethod_heap ::
  "collection_method \<Rightarrow> obj \<Rightarrow> string \<Rightarrow> string \<Rightarrow> heap \<Rightarrow> nat \<Rightarrow> nat
     \<Rightarrow> (outcome \<times> event list) \<times> heap" where
  "actualCrossOrgMethod_heap method orgsAndTokens apiName methodName h options cacheOptions =
     (case eachOfLimit_orgs_heap method apiName methodName h options cacheOptions
             (AList.clearjunk orgsAndTokens) [] of
        ((Fail error, log), h) \<Rightarrow> ((Rejected error, log), h)
      | ((Next orgs, log), h) \<Rightarrow>
          ((Resolved (Obj [(''data'', Obj [(''orgs'', Obj orgs)]), (''headers'', Obj [])]), log),
           h))"

section \<open>Vocabulary of the statements\<close>

text \<open>
  The fetch for one organization of the fan-out went well: its callback received no
  error and a result (the first two tests of the iteratee passed).
\<close>

definition org_ok :: "collection_method \<Rightarrow> jsval \<Rightarrow> jsval \<Rightarrow> string \<times> jsval \<Rightarrow> bool" where
  "org_ok method options cacheOptions p =
     (case method (snd p) (Obj (localOptions_for options (fst p)))
             (Obj (localCacheOptions_for cacheOptions)) of
        (orgError, orgValues) \<Rightarrow> \<not> err_truthy orgError \<and> truthy orgValues)"

text \<open>
  The pair \<open>(error, innerEntities)\<close> that the inner call for an entity hands back, for
  an entity the \<^verbatim>\<open>switch\<close> accepts.
\<close>

definition inner_result ::
  "collection_method \<Rightarrow> obj \<Rightarrow> jsval \<Rightarrow> jsval \<Rightarrow> string \<Rightarrow> string \<Rightarrow> jsval \<Rightarrow> js_error \<times> jsval" where
  "inner_result inner orgsAndTokens options cacheOptions innerKeyType orgName orgEntity =
     (case localOptionsTarget_for innerKeyType orgName orgEntity of
        Inl e \<Rightarrow> (e, Undefined)
      | Inr localOptionsTarget \<Rightarrow>
          inner (get_prop (Obj orgsAndTokens) (toLowerCase orgName))
            (Obj (inner_localOptions localOptionsTarget options))
            (Obj (localCacheOptions_for cacheOptions)))"

text \<open>The inner call failed: an error, or a result that carries a \<open>data\<close> field.\<close>

definition inner_failed :: "js_error \<times> jsval \<Rightarrow> bool" where
  "inner_failed r =
     (err_truthy (fst r) \<or> (truthy (snd r) \<and> truthy (get_prop (snd r) ''data'')))"

text \<open>The aggregated entity: the clone with the inner collection under the collection key.\<close>

definition aggregated :: "string \<Rightarrow> bool \<Rightarrow> string \<Rightarrow> jsval \<Rightarrow> jsval \<Rightarrow> jsval" where
  "aggregated collectionKey optionalSetOrganizationLogin orgName orgEntity innerEntities =
     Obj (AList.update collectionKey innerEntities
            (entityClone_for optionalSetOrganizationLogin orgName orgEntity))"

text \<open>
  The aggregated entities of one organization of the listing \<open>orgs\<close>: those of its
  entities whose inner call did not fail, in order.
\<close>

definition org_output ::
  "collection_method \<Rightarrow> obj \<Rightarrow> jsval \<Rightarrow> jsval \<Rightarrow> string \<Rightarrow> string \<Rightarrow> bool \<Rightarrow> jsval \<Rightarrow> string
     \<Rightarrow> jsval list" where
  "org_output inner orgsAndTokens options cacheOptions innerKeyType collectionKey
       optionalSetOrganizationLogin orgs orgName =
     map (\<lambda>orgEntity.
            aggregated collectionKey optionalSetOrganizationLogin orgName orgEntity
              (snd (inner_result inner orgsAndTokens options cacheOptions innerKeyType orgName
                      orgEntity)))
       (filter (\<lambda>orgEntity.
                  \<not> inner_failed
                      (inner_result inner orgsAndTokens options cacheOptions innerKeyType orgName
                         orgEntity))
          (eachLimit_items (get_prop orgs orgName)))"

text \<open>
  The payload the fan-out stores for an organization, and whether the result of its
  fetch carried a \<open>data\<close> field.
\<close>

definition org_payload :: "collection_method \<Rightarrow> jsval \<Rightarrow> jsval \<Rightarrow> string \<times> jsval \<Rightarrow> jsval" where
  "org_payload method options cacheOptions p =
     (case method (snd p) (Obj (localOptions_for options (fst p)))
             (Obj (localCacheOptions_for cacheOptions)) of
        (orgError, orgValues) \<Rightarrow>
          if truthy (get_prop orgValues ''data'') then get_prop orgValues ''data'' else orgValues)"

definition org_nested :: "collection_method \<Rightarrow> jsval \<Rightarrow> jsval \<Rightarrow> string \<times> jsval \<Rightarrow> bool" where
  "org_nested method options cacheOptions p =
     truthy (get_prop (snd (method (snd p) (Obj (localOptions_for options (fst p)))
             (Obj (localCacheOptions_for cacheOptions)))) ''data'')"

section \<open>A scenario for the examples\<close>

text \<open>
  Teams with an id and a name; a collections client whose only method,
  \<^verbatim>\<open>getTeamMembers\<close>, fails for the team with id 2 and returns one member
  otherwise; an outer function that returns a given listing; a method that lists
  repositories and fails for the organization \<open>beta\<close>, returns \<open>null\<close> for
  \<open>gamma\<close> and an envelope with a \<open>data\<close> field for \<open>delta\<close>; a constructor
  that sets no field but its three arguments, an engine that runs the method of the
  context on every call, and one that resolves with the cache policy fields of the
  context it is given; a team that has an \<open>organization\<close> property of its own.
\<close>

definition team :: "int \<Rightarrow> string \<Rightarrow> jsval" where
  "team i n = Obj [(''id'', Num i), (''name'', Str n)]"

definition members_method :: collection_method where
  "members_method token options cacheOptions =
     (if get_prop options ''team_id'' = Num 2 then (Error ''Not Found'', Undefined)
      else (ErrValue Null, Arr [Str ''alice'']))"

definition members_client :: collections_client where
  "members_client name = (if name = ''getTeamMembers'' then Some members_method else None)"

definition listing :: "obj \<Rightarrow> obj \<Rightarrow> jsval \<Rightarrow> jsval \<Rightarrow> js_error \<times> jsval" where
  "listing orgs orgsAndTokens options cacheOptions =
     (ErrValue Null, Obj [(''data'', Obj [(''orgs'', Obj orgs)])])"

definition repos_method :: collection_method where
  "repos_method token options cacheOptions =
     (if get_prop options ''org'' = Str ''beta'' then (Error ''Bad credentials'', Undefined)
      else if get_prop options ''org'' = Str ''gamma'' then (ErrValue Null, Null)
      else if get_prop options ''org'' = Str ''delta''
        then (ErrValue Null, Obj [(''data'', Arr [Str ''tools''])])
      else (ErrValue Null, Arr [Str ''portal'']))"

definition plain_context :: "string \<Rightarrow> 'm \<Rightarrow> jsval \<Rightarrow> 'm api_context" where
  "plain_context apiName method options =
     \<lparr>ctx_apiName = apiName, ctx_method = method, ctx_options = options,
      ctx_maxAgeSeconds = Undefined, ctx_token = Undefined, ctx_backgroundRefresh = Undefined\<rparr>"

definition run_method :: "(outcome \<times> event list) api_context \<Rightarrow> outcome \<times> event list" where
  "run_method apiContext = ctx_method apiContext"

definition report_context :: "'m api_context \<Rightarrow> outcome \<times> event list" where
  "report_context apiContext =
     (Resolved (Obj [(''maxAgeSeconds'', ctx_maxAgeSeconds apiContext),
                     (''backgroundRefresh'', ctx_backgroundRefresh apiContext)]), [])"


section \<open>Objects\<close>

lemma fold_update_map_of:
  "map_of (fold (\<lambda>(k, v) t. AList.update k v t) qs t) = map_of t ++ map_of (rev qs)"
proof (induction qs arbitrary: t)
  case Nil
  then show ?case by simp
next
  case (Cons q qs)
  obtain k v where q: "q = (k, v)" by (cases q)
  have "map_of (fold (\<lambda>(k, v) t. AList.update k v t) (q # qs) t)
          = map_of (AList.update k v t) ++ map_of (rev qs)"
    using Cons.IH [of "AList.update k v t"] q by simp
  also have "\<dots> = map_of t ++ map_of (rev (q # qs))"
    by (rule ext) (simp add: q update_conv' map_add_def split: option.splits)
  finally show ?case .
qed

lemma map_of_rev_distinct:
  "distinct (map fst qs) \<Longrightarrow> map_of (rev qs) = map_of qs"
  by (rule ext)
    (metis distinct_rev map_of_eq_Some_iff map_of_eq_None_iff not_Some_eq rev_map set_rev)

lemma get_prop_object_assign_Obj:
  "get_prop (Obj (object_assign t (Obj ps))) k =
     (case map_of ps k of Some v \<Rightarrow> v | None \<Rightarrow> get_prop (Obj t) k)"
  by (simp add: object_assign_def fold_update_map_of map_of_rev_distinct map_of_clearjunk
      map_add_def split: option.splits)

lemma get_prop_update:
  "get_prop (Obj (AList.update k v t)) k' = (if k' = k then v else get_prop (Obj t) k')"
  by (simp add: update_conv')

lemma truthy_data_truthy: "truthy (get_prop v ''data'') \<Longrightarrow> truthy v"
  by (cases v) auto

section \<open>The fan-out across organizations\<close>

lemma org_iteratee_ok:
  assumes "org_ok method options cacheOptions (orgName, token)"
  shows "\<exists>orgs' log. org_iteratee method apiName methodName options cacheOptions orgs orgName token
           = (Next orgs', log)"
  using assms by (auto simp: org_ok_def org_iteratee_def Let_def split: prod.splits)

lemma eachOfLimit_orgs_prefix:
  assumes "\<forall>p\<in>set pre. org_ok method options cacheOptions p"
  shows "\<exists>orgs' log.
           eachOfLimit_orgs method apiName methodName options cacheOptions (pre @ rest) orgs
             = (case eachOfLimit_orgs method apiName methodName options cacheOptions rest orgs' of
                  (r, log') \<Rightarrow> (r, log @ log'))"
  using assms
proof (induction pre arbitrary: orgs)
  case Nil
  have "eachOfLimit_orgs method apiName methodName options cacheOptions rest orgs
          = (case eachOfLimit_orgs method apiName methodName options cacheOptions rest orgs of
               (r, log') \<Rightarrow> (r, [] @ log'))"
    by (simp split: prod.splits)
  then show ?case by (metis append_Nil)
next
  case (Cons p pre)
  obtain orgName token where p: "p = (orgName, token)" by (cases p)
  from Cons.prems p have ok: "org_ok method options cacheOptions (orgName, token)" by simp
  then obtain orgs1 log1 where
    it: "org_iteratee method apiName methodName options cacheOptions orgs orgName token
           = (Next orgs1, log1)"
    using org_iteratee_ok by blast
  from Cons.prems have "\<forall>q\<in>set pre. org_ok method options cacheOptions q" by simp
  from Cons.IH [OF this, of orgs1] obtain orgs' log where
    ih: "eachOfLimit_orgs method apiName methodName options cacheOptions (pre @ rest) orgs1
           = (case eachOfLimit_orgs method apiName methodName options cacheOptions rest orgs' of
                (r, log') \<Rightarrow> (r, log @ log'))"
    by blast
  have "eachOfLimit_orgs method apiName methodName options cacheOptions ((p # pre) @ rest) orgs
          = (case eachOfLimit_orgs method apiName methodName options cacheOptions rest orgs' of
               (r, log') \<Rightarrow> (r, (log1 @ log) @ log'))"
    using p it ih by (simp split: prod.splits)
  then show ?case by blast
qed

text \<open>
  C2. When the fetch for an organization hands back an error, and the organizations
  visited before it went well (however many they are), the fan-out rejects its promise
  with that very error: no map of organizations is returned.
\<close>

theorem fanout_error_rejects:
  assumes "AList.clearjunk orgsAndTokens = pre @ (orgName, token) # post"
    and "\<forall>p\<in>set pre. org_ok method options cacheOptions p"
    and "method token (Obj (localOptions_for options orgName))
           (Obj (localCacheOptions_for cacheOptions)) = (orgError, orgValues)"
    and "err_truthy orgError"
  shows "fst (actualCrossOrgMethod method orgsAndTokens apiName methodName options cacheOptions)
           = Rejected orgError"
proof -
  have it: "org_iteratee method apiName methodName options cacheOptions orgs orgName token
              = (Fail orgError, [Fetched token (Obj (localOptions_for options orgName))
                   (Obj (localCacheOptions_for cacheOptions))])" for orgs
    using assms(3,4) by (simp add: org_iteratee_def Let_def)
  obtain orgs' log where
    "eachOfLimit_orgs method apiName methodName options cacheOptions
        (pre @ (orgName, token) # post) []
       = (case eachOfLimit_orgs method apiName methodName options cacheOptions
                 ((orgName, token) # post) orgs' of (r, log') \<Rightarrow> (r, log @ log'))"
    using eachOfLimit_orgs_prefix [OF assms(2)] by blast
  then show ?thesis
    using assms(1) it by (simp add: actualCrossOrgMethod_def)
qed

theorem fanout_error_rejects_witness:
  "fst (actualCrossOrgMethod repos_method
          [(''alpha'', Str ''t1''), (''beta'', Str ''t2''), (''delta'', Str ''t4'')]
          ''repos'' ''getOrgRepos'' (Obj []) (Obj []))
   = Rejected (Error ''Bad credentials'')"
proof -
  have h1: "AList.clearjunk [(''alpha'', Str ''t1''), (''beta'', Str ''t2''), (''delta'', Str ''t4'')]
              = [(''alpha'', Str ''t1'')] @ (''beta'', Str ''t2'') # [(''delta'', Str ''t4'')]"
    by code_simp
  have h2: "\<forall>p\<in>set [(''alpha'', Str ''t1'')]. org_ok repos_method (Obj []) (Obj []) p"
    by code_simp
  have h3: "repos_method (Str ''t2'') (Obj (localOptions_for (Obj []) ''beta''))
              (Obj (localCacheOptions_for (Obj []))) = (Error ''Bad credentials'', Undefined)"
    by code_simp
  have h4: "err_truthy (Error ''Bad credentials'')" by simp
  show ?thesis by (rule fanout_error_rejects [OF h1 h2 h3 h4])
qed

text \<open>
  C10. When the fetch for an organization hands back no error and no result
  (\<open>undefined\<close>, \<open>null\<close>, or another falsy value), and the organizations visited
  before it went well, the fan-out rejects its promise with the error \<open>No result\<close>.
\<close>

theorem fanout_no_result_rejects:
  assumes "AList.clearjunk orgsAndTokens = pre @ (orgName, token) # post"
    and "\<forall>p\<in>set pre. org_ok method options cacheOptions p"
    and "method token (Obj (localOptions_for options orgName))
           (Obj (localCacheOptions_for cacheOptions)) = (orgError, orgValues)"
    and "\<not> err_truthy orgError"
    and "\<not> truthy orgValues"
  shows "fst (actualCrossOrgMethod method orgsAndTokens apiName methodName options cacheOptions)
           = Rejected (Error ''No result'')"
proof -
  have it: "fst (org_iteratee method apiName methodName options cacheOptions orgs orgName token)
              = Fail (Error ''No result'')" for orgs
    using assms(3,4,5) by (simp add: org_iteratee_def Let_def)
  obtain orgs' log where
    "eachOfLimit_orgs method apiName methodName options cacheOptions
        (pre @ (orgName, token) # post) []
       = (case eachOfLimit_orgs method apiName methodName options cacheOptions
                 ((orgName, token) # post) orgs' of (r, log') \<Rightarrow> (r, log @ log'))"
    using eachOfLimit_orgs_prefix [OF assms(2)] by blast
  then show ?thesis
    using assms(1) it [of orgs']
    by (auto simp add: actualCrossOrgMethod_def split: prod.splits step.splits)
qed

theorem fanout_no_result_rejects_witness:
  "fst (actualCrossOrgMethod repos_method
          [(''alpha'', Str ''t1''), (''gamma'', Str ''t3''), (''delta'', Str ''t4'')]
          ''repos'' ''getOrgRepos'' (Obj []) (Obj []))
   = Rejected (Error ''No result'')"
proof -
  have h1: "AList.clearjunk [(''alpha'', Str ''t1''), (''gamma'', Str ''t3''), (''delta'', Str ''t4'')]
              = [(''alpha'', Str ''t1'')] @ (''gamma'', Str ''t3'') # [(''delta'', Str ''t4'')]"
    by code_simp
  have h2: "\<forall>p\<in>set [(''alpha'', Str ''t1'')]. org_ok repos_method (Obj []) (Obj []) p"
    by code_simp
  have h3: "repos_method (Str ''t3'') (Obj (localOptions_for (Obj []) ''gamma''))
              (Obj (localCacheOptions_for (Obj []))) = (ErrValue Null, Null)"
    by code_simp
  have h4: "\<not> err_truthy (ErrValue Null)" by simp
  have h5: "\<not> truthy Null" by simp
  show ?thesis by (rule fanout_no_result_rejects [OF h1 h2 h3 h4 h5])
qed

lemma org_iteratee_ok_value:
  assumes "org_ok method options cacheOptions (orgName, token)"
  shows "\<exists>log. org_iteratee method apiName methodName options cacheOptions orgs orgName token
           = (Next (AList.update orgName (org_payload method options cacheOptions (orgName, token)) orgs), log)
          \<and> (org_nested method options cacheOptions (orgName, token)
               \<longrightarrow> Warned (data_warning apiName methodName) \<in> set log)"
  using assms
  by (auto simp: org_ok_def org_iteratee_def org_payload_def org_nested_def Let_def split: prod.splits)

lemma eachOfLimit_orgs_all_ok:
  assumes "\<forall>p\<in>set es. org_ok method options cacheOptions p"
    and "distinct (map fst es)"
  shows "\<exists>orgs' log.
           eachOfLimit_orgs method apiName methodName options cacheOptions es orgs = (Next orgs', log)
         \<and> (\<forall>p\<in>set es. map_of orgs' (fst p) = Some (org_payload method options cacheOptions p))
         \<and> (\<forall>k. k \<notin> fst ` set es \<longrightarrow> map_of orgs' k = map_of orgs k)
         \<and> (\<forall>p\<in>set es. org_nested method options cacheOptions p
               \<longrightarrow> Warned (data_warning apiName methodName) \<in> set log)"
  using assms
proof (induction es arbitrary: orgs)
  case Nil
  then show ?case by simp
next
  case (Cons p es)
  obtain orgName token where p: "p = (orgName, token)" by (cases p)
  let ?v = "org_payload method options cacheOptions (orgName, token)"
  from Cons.prems p have here: "org_ok method options cacheOptions (orgName, token)" by simp
  from org_iteratee_ok_value [OF here, where apiName = apiName and methodName = methodName
      and orgs = orgs]
  obtain log1 where
    it: "org_iteratee method apiName methodName options cacheOptions orgs orgName token
           = (Next (AList.update orgName ?v orgs), log1)"
    and w1: "org_nested method options cacheOptions (orgName, token)
               \<longrightarrow> Warned (data_warning apiName methodName) \<in> set log1"
    by blast
  from Cons.prems have ok: "\<forall>q\<in>set es. org_ok method options cacheOptions q"
    and d: "distinct (map fst es)" and nin: "orgName \<notin> fst ` set es"
    using p by auto
  from Cons.IH [OF ok d, of "AList.update orgName ?v orgs"] obtain orgs' log where
    run: "eachOfLimit_orgs method apiName methodName options cacheOptions es
            (AList.update orgName ?v orgs) = (Next orgs', log)"
    and vals: "\<forall>q\<in>set es. map_of orgs' (fst q) = Some (org_payload method options cacheOptions q)"
    and others: "\<forall>k. k \<notin> fst ` set es \<longrightarrow> map_of orgs' k = map_of (AList.update orgName ?v orgs) k"
    and warns: "\<forall>q\<in>set es. org_nested method options cacheOptions q
               \<longrightarrow> Warned (data_warning apiName methodName) \<in> set log"
    by blast
  have r: "eachOfLimit_orgs method apiName methodName options cacheOptions (p # es) orgs
          = (Next orgs', log1 @ log)"
    using p it run by simp
  have here: "map_of orgs' orgName = Some ?v"
    using others nin by (simp add: update_conv')
  have rest: "\<forall>k. k \<notin> fst ` set (p # es) \<longrightarrow> map_of orgs' k = map_of orgs k"
    using others p by (simp add: update_conv')
  show ?case
    using r here vals rest w1 warns p by auto
qed

text \<open>
  C6. When the fetches of all organizations go well and the result for one of them
  carries a (truthy) \<open>data\<close> field, the fan-out still resolves: it stores that nested
  \<open>data\<close> under the login of the organization, in place of the result itself, and
  writes the warning.
\<close>

theorem nested_data_normalized:
  assumes "\<forall>p\<in>set (AList.clearjunk orgsAndTokens). org_ok method options cacheOptions p"
    and "(orgName, token) \<in> set (AList.clearjunk orgsAndTokens)"
    and "method token (Obj (localOptions_for options orgName))
           (Obj (localCacheOptions_for cacheOptions)) = (orgError, orgValues)"
    and "truthy (get_prop orgValues ''data'')"
  shows "\<exists>orgs log.
           actualCrossOrgMethod method orgsAndTokens apiName methodName options cacheOptions
             = (Resolved (Obj [(''data'', Obj [(''orgs'', Obj orgs)]), (''headers'', Obj [])]), log)
         \<and> get_prop (Obj orgs) orgName = get_prop orgValues ''data''
         \<and> Warned (data_warning apiName methodName) \<in> set log"
proof -
  have d: "distinct (map fst (AList.clearjunk orgsAndTokens))" by simp
  from eachOfLimit_orgs_all_ok [OF assms(1) d, of apiName methodName "[]"] obtain orgs log where
    run: "eachOfLimit_orgs method apiName methodName options cacheOptions
            (AList.clearjunk orgsAndTokens) [] = (Next orgs, log)"
    and vals: "\<forall>p\<in>set (AList.clearjunk orgsAndTokens).
                 map_of orgs (fst p) = Some (org_payload method options cacheOptions p)"
    and warns: "\<forall>p\<in>set (AList.clearjunk orgsAndTokens). org_nested method options cacheOptions p
               \<longrightarrow> Warned (data_warning apiName methodName) \<in> set log"
    by blast
  have "map_of orgs orgName = Some (get_prop orgValues ''data'')"
    using vals assms(2,3,4) by (force simp: org_payload_def)
  moreover have "Warned (data_warning apiName methodName) \<in> set log"
    using warns assms(2,3,4) by (force simp: org_nested_def)
  ultimately show ?thesis
    using run by (simp add: actualCrossOrgMethod_def)
qed

theorem nested_data_normalized_witness:
  "\<exists>orgs log.
     actualCrossOrgMethod repos_method [(''alpha'', Str ''t1''), (''delta'', Str ''t4'')]
       ''repos'' ''getOrgRepos'' (Obj []) (Obj [])
     = (Resolved (Obj [(''data'', Obj [(''orgs'', Obj orgs)]), (''headers'', Obj [])]), log)
   \<and> get_prop (Obj orgs) ''delta'' = get_prop (Obj [(''data'', Arr [Str ''tools''])]) ''data''
   \<and> Warned (data_warning ''repos'' ''getOrgRepos'') \<in> set log"
proof -
  have h1: "\<forall>p\<in>set (AList.clearjunk [(''alpha'', Str ''t1''), (''delta'', Str ''t4'')]).
              org_ok repos_method (Obj []) (Obj []) p"
    by code_simp
  have h2: "(''delta'', Str ''t4'')
              \<in> set (AList.clearjunk [(''alpha'', Str ''t1''), (''delta'', Str ''t4'')])"
    by code_simp
  have h3: "repos_method (Str ''t4'') (Obj (localOptions_for (Obj []) ''delta''))
              (Obj (localCacheOptions_for (Obj [])))
            = (ErrValue Null, Obj [(''data'', Arr [Str ''tools''])])"
    by code_simp
  have h4: "truthy (get_prop (Obj [(''data'', Arr [Str ''tools''])]) ''data'')"
    by code_simp
  show ?thesis by (rule nested_data_normalized [OF h1 h2 h3 h4])
qed

text \<open>
  C9. When the method name names no method of the collections client,
  \<^verbatim>\<open>getCrossOrganizationMethod\<close> throws an error at once: the engine is not run and
  no fetch is issued (the list of events is empty).
\<close>

theorem unresolved_method_throws:
  assumes "collectionsClient methodName = None"
  shows "getCrossOrganizationMethod collectionsClient new_context execute orgsAndTokens apiName
           methodName options cacheArg
         = (Threw (Error ''No method called undefined defined in the collections client.''), [])"
  using assms by (simp add: getCrossOrganizationMethod_def)

theorem unresolved_method_throws_witness:
  "getCrossOrganizationMethod members_client plain_context run_method
     [(''alpha'', Str ''t1'')] ''repos'' ''getOrgRepos'' (Obj []) (Policy (Obj []))
   = (Threw (Error ''No method called undefined defined in the collections client.''), [])"
proof -
  have h: "members_client ''getOrgRepos'' = None" by code_simp
  show ?thesis
    by (rule unresolved_method_throws [where collectionsClient = members_client
      and methodName = "''getOrgRepos''", OF h])
qed

text \<open>
  C5, as stated, fails on the flag: a \<open>backgroundRefresh\<close> of \<open>false\<close> is not
  written to the context (with a constructor that sets no field, the context has
  \<open>undefined\<close> there), and a truthy flag that is not \<open>true\<close>, such as 1, arrives
  as \<open>true\<close>.
\<close>

theorem refresh_flag_not_verbatim:
  "generalizedCollectionMethod plain_context report_context (Obj [(''alpha'', Str ''t1'')]) ''repos''
     () (Obj []) (Policy (Obj [(''backgroundRefresh'', Bool False)]))
   = (CalledBack (ErrValue Null)
        (Obj [(''maxAgeSeconds'', Num 600), (''backgroundRefresh'', Undefined)]), [])
 \<and> generalizedCollectionMethod plain_context report_context (Obj [(''alpha'', Str ''t1'')]) ''repos''
     () (Obj []) (Policy (Obj [(''backgroundRefresh'', Num 1)]))
   = (CalledBack (ErrValue Null)
        (Obj [(''maxAgeSeconds'', Num 600), (''backgroundRefresh'', Bool True)]), [])"
  by (simp add: generalizedCollectionMethod_def apiContext_for_def plain_context_def
      report_context_def)

text \<open>
  C5, amended. When the cache policy has no \<open>maxAgeSeconds\<close> (also when the
  policy is left out and the callback stands in its place), the engine is run on the
  context the constructor made, with \<open>maxAgeSeconds = 600\<close> and the token; its
  \<open>backgroundRefresh\<close> is set to \<open>true\<close> when the caller's flag is truthy and is
  not written otherwise.
\<close>

theorem refresh_flag_sets_true_only:
  assumes "\<not> nullish (cache_arg_value cacheArg)"
    and "get_prop (cache_arg_value cacheArg) ''maxAgeSeconds'' = Undefined"
  shows "generalizedCollectionMethod new_context execute token apiName method options cacheArg
         = (let apiContext = (new_context apiName method options)
                  \<lparr>ctx_maxAgeSeconds := Num 600, ctx_token := token\<rparr>
            in case execute
                 (if truthy (get_prop (cache_arg_value cacheArg) ''backgroundRefresh'')
                  then apiContext\<lparr>ctx_backgroundRefresh := Bool True\<rparr>
                  else apiContext) of
                 (Resolved ok, log) \<Rightarrow> (CalledBack (ErrValue Null) ok, log)
               | (Rejected e, log) \<Rightarrow> (CalledBack e Undefined, log))"
  using assms
  by (simp add: generalizedCollectionMethod_def apiContext_for_def Let_def)

theorem refresh_flag_sets_true_only_witness:
  "generalizedCollectionMethod plain_context report_context (Obj [(''alpha'', Str ''t1'')]) ''repos''
     () (Obj []) (Policy (Obj [(''backgroundRefresh'', Bool True)]))
   = (CalledBack (ErrValue Null)
        (Obj [(''maxAgeSeconds'', Num 600), (''backgroundRefresh'', Bool True)]), [])
 \<and> generalizedCollectionMethod plain_context run_method (Obj [(''alpha'', Str ''t1'')]) ''repos''
     (Rejected (Error ''Bad credentials''), []) (Obj []) PolicyOmitted
   = (CalledBack (Error ''Bad credentials'') Undefined, [])"
proof -
  have h1: "\<not> nullish (cache_arg_value (Policy (Obj [(''backgroundRefresh'', Bool True)])))"
    by simp
  have h2: "get_prop (cache_arg_value (Policy (Obj [(''backgroundRefresh'', Bool True)])))
              ''maxAgeSeconds'' = Undefined"
    by simp
  have h3: "\<not> nullish (cache_arg_value PolicyOmitted)" by simp
  have h4: "get_prop (cache_arg_value PolicyOmitted) ''maxAgeSeconds'' = Undefined" by simp
  have a: "generalizedCollectionMethod plain_context report_context (Obj [(''alpha'', Str ''t1'')])
       ''repos'' () (Obj []) (Policy (Obj [(''backgroundRefresh'', Bool True)]))
     = (CalledBack (ErrValue Null)
        (Obj [(''maxAgeSeconds'', Num 600), (''backgroundRefresh'', Bool True)]), [])"
    using refresh_flag_sets_true_only [OF h1 h2, where new_context = plain_context
      and execute = report_context and token = "Obj [(''alpha'', Str ''t1'')]"
      and apiName = "''repos''" and options = "Obj []"]
    by (simp add: report_context_def)
  have b: "generalizedCollectionMethod plain_context run_method (Obj [(''alpha'', Str ''t1'')])
       ''repos'' (Rejected (Error ''Bad credentials''), []) (Obj []) PolicyOmitted
     = (CalledBack (Error ''Bad credentials'') Undefined, [])"
    using refresh_flag_sets_true_only [OF h3 h4, where new_context = plain_context
      and execute = run_method and token = "Obj [(''alpha'', Str ''t1'')]"
      and apiName = "''repos''" and options = "Obj []"]
    by (simp add: run_method_def plain_context_def)
  show ?thesis using a b by (intro conjI)
qed

lemma org_iteratee_log:
  assumes "Fetched tok lo lc \<in> set (snd (org_iteratee method apiName methodName options cacheOptions orgs orgName token))"
  shows "tok = token \<and> lo = Obj (localOptions_for options orgName)
           \<and> lc = Obj (localCacheOptions_for cacheOptions)"
  using assms by (auto simp: org_iteratee_def Let_def split: prod.splits if_splits)

lemma eachOfLimit_orgs_log:
  assumes "Fetched tok lo lc
             \<in> set (snd (eachOfLimit_orgs method apiName methodName options cacheOptions es orgs))"
  shows "\<exists>orgName. (orgName, tok) \<in> set es \<and> lo = Obj (localOptions_for options orgName)
           \<and> lc = Obj (localCacheOptions_for cacheOptions)"
  using assms
proof (induction es arbitrary: orgs)
  case Nil
  then show ?case by simp
next
  case (Cons p es)
  obtain orgName token where p: "p = (orgName, token)" by (cases p)
  obtain r log1 where
    it: "org_iteratee method apiName methodName options cacheOptions orgs orgName token = (r, log1)"
    by (cases "org_iteratee method apiName methodName options cacheOptions orgs orgName token")
  have here: "\<exists>orgName. (orgName, tok) \<in> set (p # es)
                \<and> lo = Obj (localOptions_for options orgName)
                \<and> lc = Obj (localCacheOptions_for cacheOptions)"
    if "Fetched tok lo lc \<in> set log1"
  proof -
    from that it have "Fetched tok lo lc
        \<in> set (snd (org_iteratee method apiName methodName options cacheOptions orgs orgName token))"
      by simp
    then have "tok = token \<and> lo = Obj (localOptions_for options orgName)
                 \<and> lc = Obj (localCacheOptions_for cacheOptions)"
      by (rule org_iteratee_log)
    then show ?thesis using p by auto
  qed
  show ?case
  proof (cases r)
    case (Fail e)
    with Cons.prems p it have "Fetched tok lo lc \<in> set log1" by simp
    then show ?thesis by (rule here)
  next
    case (Next orgs1)
    obtain r2 log2 where
      rest: "eachOfLimit_orgs method apiName methodName options cacheOptions es orgs1 = (r2, log2)"
      by (cases "eachOfLimit_orgs method apiName methodName options cacheOptions es orgs1")
    with Cons.prems p it Next
    have "Fetched tok lo lc \<in> set log1 \<or> Fetched tok lo lc \<in> set log2"
      by simp
    then show ?thesis
    proof
      assume "Fetched tok lo lc \<in> set log1"
      then show ?thesis by (rule here)
    next
      assume "Fetched tok lo lc \<in> set log2"
      with rest Cons.IH [of orgs1] show ?thesis by auto
    qed
  qed
qed

lemma localOptions_for_props:
  "get_prop (Obj (localOptions_for (Obj ops) orgName)) k =
     (if k = ''org'' then Str orgName
      else if k = ''per_page'' then
        (if truthy (get_prop (Obj ops) ''per_page'') then get_prop (Obj ops) ''per_page'' else Num 100)
      else get_prop (Obj ops) k)"
proof -
  have a: "get_prop (Obj (object_assign [] (Obj ops))) k' = get_prop (Obj ops) k'" for k'
    by (simp only: get_prop_object_assign_Obj) (simp split: option.splits)
  show ?thesis
    unfolding localOptions_for_def Let_def
    by (simp only: get_prop_update a split: if_splits) simp
qed

lemma localCacheOptions_for_props:
  "get_prop (Obj (localCacheOptions_for (Obj cops))) k =
     (if k = ''maxAgeSeconds'' \<and> truthy (get_prop (Obj cops) ''individualMaxAgeSeconds'')
      then get_prop (Obj cops) ''individualMaxAgeSeconds''
      else get_prop (Obj cops) k)"
proof -
  have a: "get_prop (Obj (object_assign [] (Obj cops))) k' = get_prop (Obj cops) k'" for k'
    by (simp only: get_prop_object_assign_Obj) (simp split: option.splits)
  show ?thesis
    unfolding localCacheOptions_for_def Let_def
    by (simp only: get_prop_update a split: if_splits) simp
qed

lemma prepare_org_call_fresh:
  assumes "options < length h" and "cacheOptions < length h"
  shows "case prepare_org_call h options cacheOptions orgName of
           (h', localOptions, localCacheOptions) \<Rightarrow>
             take (length h) h' = h
           \<and> length h \<le> localOptions \<and> length h \<le> localCacheOptions
           \<and> h' ! localOptions = localOptions_for (Obj (h ! options)) orgName
           \<and> h' ! localCacheOptions = localCacheOptions_for (Obj (h ! cacheOptions))"
  using assms
  unfolding prepare_org_call_def heap_alloc_def heap_assign_def heap_set_def heap_get_def
    localOptions_for_def localCacheOptions_for_def Let_def
  by (simp add: nth_append nth_list_update del: get_prop.simps)

lemma org_iteratee_heap_refines:
  assumes "options < length h" and "cacheOptions < length h"
  shows "fst (org_iteratee_heap method apiName methodName h options cacheOptions orgs orgName token)
           = org_iteratee method apiName methodName (Obj (h ! options)) (Obj (h ! cacheOptions))
               orgs orgName token
       \<and> take (length h)
            (snd (org_iteratee_heap method apiName methodName h options cacheOptions orgs orgName
                    token)) = h"
proof -
  obtain h' lo lc where p: "prepare_org_call h options cacheOptions orgName = (h', lo, lc)"
    by (cases "prepare_org_call h options cacheOptions orgName")
  from prepare_org_call_fresh [OF assms, of orgName] p
  have keep: "take (length h) h' = h"
    and lo: "h' ! lo = localOptions_for (Obj (h ! options)) orgName"
    and lc: "h' ! lc = localCacheOptions_for (Obj (h ! cacheOptions))"
    by simp_all
  show ?thesis
    unfolding org_iteratee_heap_def org_iteratee_def p
    by (simp add: lo lc keep Let_def split: prod.splits del: get_prop.simps)
qed

lemma take_take_heap:
  assumes "take (length h) h1 = h" and "take (length h1) h2 = h1"
  shows "take (length h) h2 = h"
proof -
  have "length (take (length h) h1) = length h" using assms(1) by simp
  then have "length h \<le> length h1" by simp
  then have "take (length h) h2 = take (length h) (take (length h1) h2)" by simp
  then show ?thesis using assms by simp
qed

lemma eachOfLimit_orgs_heap_refines:
  assumes "options < length h" and "cacheOptions < length h"
  shows "fst (eachOfLimit_orgs_heap method apiName methodName h options cacheOptions es orgs)
           = eachOfLimit_orgs method apiName methodName (Obj (h ! options))
               (Obj (h ! cacheOptions)) es orgs
       \<and> take (length h)
            (snd (eachOfLimit_orgs_heap method apiName methodName h options cacheOptions es orgs))
           = h"
  using assms
proof (induction es arbitrary: h orgs)
  case Nil
  then show ?case by simp
next
  case (Cons p es)
  obtain orgName token where p: "p = (orgName, token)" by (cases p)
  obtain r log1 h1 where
    it: "org_iteratee_heap method apiName methodName h options cacheOptions orgs orgName token
           = ((r, log1), h1)"
    by (cases "org_iteratee_heap method apiName methodName h options cacheOptions orgs orgName
                 token") auto
  have "fst (org_iteratee_heap method apiName methodName h options cacheOptions orgs orgName token)
           = org_iteratee method apiName methodName (Obj (h ! options)) (Obj (h ! cacheOptions))
               orgs orgName token
       \<and> take (length h)
            (snd (org_iteratee_heap method apiName methodName h options cacheOptions orgs orgName
                    token)) = h"
    by (rule org_iteratee_heap_refines [OF Cons.prems])
  with it have pure: "org_iteratee method apiName methodName (Obj (h ! options)) (Obj (h ! cacheOptions))
                orgs orgName token = (r, log1)"
    and keep1: "take (length h) h1 = h"
    by simp_all
  have "length (take (length h) h1) = length h" using keep1 by simp
  then have len: "length h \<le> length h1" by simp
  have same_o: "h1 ! options = h ! options"
    using keep1 Cons.prems(1) by (metis nth_take)
  have same_c: "h1 ! cacheOptions = h ! cacheOptions"
    using keep1 Cons.prems(2) by (metis nth_take)
  show ?case
  proof (cases r)
    case (Fail e)
    then show ?thesis using p it pure keep1 by simp
  next
    case (Next orgs1)
    have o1: "options < length h1" and c1: "cacheOptions < length h1"
      using Cons.prems len by simp_all
    obtain r2 log2 h2 where
      rest: "eachOfLimit_orgs_heap method apiName methodName h1 options cacheOptions es orgs1
               = ((r2, log2), h2)"
      by (cases "eachOfLimit_orgs_heap method apiName methodName h1 options cacheOptions es orgs1")
        auto
    from Cons.IH [OF o1 c1, of orgs1] rest
    have pure2: "eachOfLimit_orgs method apiName methodName (Obj (h ! options))
                   (Obj (h ! cacheOptions)) es orgs1 = (r2, log2)"
      and keep2: "take (length h1) h2 = h1"
      by (simp_all add: same_o same_c)
    have keep: "take (length h) h2 = h" by (rule take_take_heap [OF keep1 keep2])
    show ?thesis using p it pure Next rest pure2 keep by simp
  qed
qed

lemma actualCrossOrgMethod_heap_refines:
  assumes "options < length h" and "cacheOptions < length h"
  shows "fst (actualCrossOrgMethod_heap method orgsAndTokens apiName methodName h options
                cacheOptions)
           = actualCrossOrgMethod method orgsAndTokens apiName methodName (Obj (h ! options))
               (Obj (h ! cacheOptions))
       \<and> take (length h)
            (snd (actualCrossOrgMethod_heap method orgsAndTokens apiName methodName h options
                    cacheOptions)) = h"
proof -
  obtain r log h' where
    run: "eachOfLimit_orgs_heap method apiName methodName h options cacheOptions
            (AList.clearjunk orgsAndTokens) [] = ((r, log), h')"
    by (cases "eachOfLimit_orgs_heap method apiName methodName h options cacheOptions
            (AList.clearjunk orgsAndTokens) []") auto
  have "fst (eachOfLimit_orgs_heap method apiName methodName h options cacheOptions
               (AList.clearjunk orgsAndTokens) [])
           = eachOfLimit_orgs method apiName methodName (Obj (h ! options))
               (Obj (h ! cacheOptions)) (AList.clearjunk orgsAndTokens) []
       \<and> take (length h)
            (snd (eachOfLimit_orgs_heap method apiName methodName h options cacheOptions
                    (AList.clearjunk orgsAndTokens) [])) = h"
    by (rule eachOfLimit_orgs_heap_refines [OF assms])
  with run have pure: "eachOfLimit_orgs method apiName methodName (Obj (h ! options))
                (Obj (h ! cacheOptions)) (AList.clearjunk orgsAndTokens) [] = (r, log)"
    and keep: "take (length h) h' = h"
    by simp_all
  show ?thesis
    unfolding actualCrossOrgMethod_heap_def actualCrossOrgMethod_def run pure
    using keep by (cases r) simp_all
qed

lemma org_iteratee_fetches:
  "\<exists>rest. snd (org_iteratee method apiName methodName options cacheOptions orgs orgName token)
     = Fetched token (Obj (localOptions_for options orgName))
         (Obj (localCacheOptions_for cacheOptions)) # rest"
  by (auto simp: org_iteratee_def Let_def split: prod.splits)

lemma eachOfLimit_orgs_visited_fetched:
  assumes "\<forall>p\<in>set pre. org_ok method options cacheOptions p"
  shows "Fetched token (Obj (localOptions_for options orgName))
           (Obj (localCacheOptions_for cacheOptions))
         \<in> set (snd (eachOfLimit_orgs method apiName methodName options cacheOptions
                       (pre @ (orgName, token) # post) orgs))"
proof -
  obtain orgs' log where
    run: "eachOfLimit_orgs method apiName methodName options cacheOptions
            (pre @ (orgName, token) # post) orgs
          = (case eachOfLimit_orgs method apiName methodName options cacheOptions
                    ((orgName, token) # post) orgs' of (r, log') \<Rightarrow> (r, log @ log'))"
    using eachOfLimit_orgs_prefix [OF assms] by blast
  obtain rest where
    f: "snd (org_iteratee method apiName methodName options cacheOptions orgs' orgName token)
          = Fetched token (Obj (localOptions_for options orgName))
              (Obj (localCacheOptions_for cacheOptions)) # rest"
    using org_iteratee_fetches by blast
  have "Fetched token (Obj (localOptions_for options orgName))
           (Obj (localCacheOptions_for cacheOptions))
         \<in> set (snd (eachOfLimit_orgs method apiName methodName options cacheOptions
                       ((orgName, token) # post) orgs'))"
    using f by (auto split: prod.splits step.splits)
  then show ?thesis
    unfolding run by (auto split: prod.splits)
qed

text \<open>
  C7, as stated, fails on \<open>individualMaxAgeSeconds\<close>: a policy that has it, with
  the value 0, and \<open>maxAgeSeconds = 600\<close> gives a call whose \<open>maxAgeSeconds\<close> is
  600.
\<close>

theorem zero_individual_max_age_not_used:
  "snd (actualCrossOrgMethod repos_method [(''alpha'', Str ''t1'')] ''repos'' ''getOrgRepos''
          (Obj []) (Obj [(''maxAgeSeconds'', Num 600), (''individualMaxAgeSeconds'', Num 0)]))
   = [Fetched (Str ''t1'') (Obj [(''org'', Str ''alpha''), (''per_page'', Num 100)])
        (Obj [(''maxAgeSeconds'', Num 600), (''individualMaxAgeSeconds'', Num 0)])]"
  by code_simp

text \<open>
  C7, amended. Every fetch of the fan-out is issued with the token of an organization
  of the token set, with \<open>localOptions_for\<close> of the options template and the login
  of that organization, and with \<open>localCacheOptions_for\<close> of the cache policy; and
  every organization the loop reaches (those before it went well) is fetched so. Those
  options have \<open>org\<close> set to the login, \<open>per_page\<close> as the template has it, or
  100 when the template has none or a falsy one, and every other key as in the
  template; that policy has \<open>maxAgeSeconds\<close> replaced by
  \<open>individualMaxAgeSeconds\<close> when the latter is truthy, and every other key as in the
  caller's policy. Over references, the fan-out returns and logs what it does over
  values, and leaves every object that was in the store as it was, the caller's
  options and cache policy among them.
\<close>

theorem per_org_call_options:
  "(\<forall>tok lo lc.
      Fetched tok lo lc
        \<in> set (snd (actualCrossOrgMethod method orgsAndTokens apiName methodName (Obj ops)
                      (Obj cops))) \<longrightarrow>
      (\<exists>login. (login, tok) \<in> set (AList.clearjunk orgsAndTokens)
         \<and> lo = Obj (localOptions_for (Obj ops) login)
         \<and> lc = Obj (localCacheOptions_for (Obj cops))))
 \<and> (\<forall>pre login tok post.
      AList.clearjunk orgsAndTokens = pre @ (login, tok) # post
      \<and> (\<forall>p\<in>set pre. org_ok method (Obj ops) (Obj cops) p) \<longrightarrow>
      Fetched tok (Obj (localOptions_for (Obj ops) login)) (Obj (localCacheOptions_for (Obj cops)))
        \<in> set (snd (actualCrossOrgMethod method orgsAndTokens apiName methodName (Obj ops)
                      (Obj cops))))
 \<and> get_prop (Obj (localOptions_for (Obj ops) orgName)) k =
     (if k = ''org'' then Str orgName
      else if k = ''per_page'' then
        (if truthy (get_prop (Obj ops) ''per_page'') then get_prop (Obj ops) ''per_page''
         else Num 100)
      else get_prop (Obj ops) k)
 \<and> get_prop (Obj (localCacheOptions_for (Obj cops))) k =
     (if k = ''maxAgeSeconds'' \<and> truthy (get_prop (Obj cops) ''individualMaxAgeSeconds'')
      then get_prop (Obj cops) ''individualMaxAgeSeconds''
      else get_prop (Obj cops) k)
 \<and> (optionsRef < length h \<and> cacheOptionsRef < length h \<longrightarrow>
      fst (actualCrossOrgMethod_heap method orgsAndTokens apiName methodName h optionsRef
             cacheOptionsRef)
        = actualCrossOrgMethod method orgsAndTokens apiName methodName (Obj (h ! optionsRef))
            (Obj (h ! cacheOptionsRef))
      \<and> take (length h)
           (snd (actualCrossOrgMethod_heap method orgsAndTokens apiName methodName h optionsRef
                   cacheOptionsRef)) = h)"
proof (intro conjI allI impI)
  fix tok lo lc
  assume "Fetched tok lo lc
        \<in> set (snd (actualCrossOrgMethod method orgsAndTokens apiName methodName (Obj ops)
                      (Obj cops)))"
  then have "Fetched tok lo lc \<in> set (snd (eachOfLimit_orgs method apiName methodName (Obj ops)
                (Obj cops) (AList.clearjunk orgsAndTokens) []))"
    by (auto simp: actualCrossOrgMethod_def split: prod.splits step.splits)
  then show "\<exists>login. (login, tok) \<in> set (AList.clearjunk orgsAndTokens)
         \<and> lo = Obj (localOptions_for (Obj ops) login)
         \<and> lc = Obj (localCacheOptions_for (Obj cops))"
    by (rule eachOfLimit_orgs_log)
next
  fix pre login tok post
  assume a: "AList.clearjunk orgsAndTokens = pre @ (login, tok) # post
      \<and> (\<forall>p\<in>set pre. org_ok method (Obj ops) (Obj cops) p)"
  then have ok: "\<forall>p\<in>set pre. org_ok method (Obj ops) (Obj cops) p" by simp
  have "Fetched tok (Obj (localOptions_for (Obj ops) login)) (Obj (localCacheOptions_for (Obj cops)))
          \<in> set (snd (eachOfLimit_orgs method apiName methodName (Obj ops) (Obj cops)
                        (pre @ (login, tok) # post) []))"
    by (rule eachOfLimit_orgs_visited_fetched [OF ok])
  then show "Fetched tok (Obj (localOptions_for (Obj ops) login))
               (Obj (localCacheOptions_for (Obj cops)))
        \<in> set (snd (actualCrossOrgMethod method orgsAndTokens apiName methodName (Obj ops)
                      (Obj cops)))"
    using a by (auto simp: actualCrossOrgMethod_def split: prod.splits step.splits)
next
  show "get_prop (Obj (localOptions_for (Obj ops) orgName)) k =
     (if k = ''org'' then Str orgName
      else if k = ''per_page'' then
        (if truthy (get_prop (Obj ops) ''per_page'') then get_prop (Obj ops) ''per_page''
         else Num 100)
      else get_prop (Obj ops) k)"
    by (rule localOptions_for_props)
next
  show "get_prop (Obj (localCacheOptions_for (Obj cops))) k =
     (if k = ''maxAgeSeconds'' \<and> truthy (get_prop (Obj cops) ''individualMaxAgeSeconds'')
      then get_prop (Obj cops) ''individualMaxAgeSeconds''
      else get_prop (Obj cops) k)"
    by (rule localCacheOptions_for_props)
next
  assume "optionsRef < length h \<and> cacheOptionsRef < length h"
  then have a: "optionsRef < length h" and b: "cacheOptionsRef < length h" by simp_all
  have both: "fst (actualCrossOrgMethod_heap method orgsAndTokens apiName methodName h optionsRef
             cacheOptionsRef)
        = actualCrossOrgMethod method orgsAndTokens apiName methodName (Obj (h ! optionsRef))
            (Obj (h ! cacheOptionsRef))
      \<and> take (length h)
           (snd (actualCrossOrgMethod_heap method orgsAndTokens apiName methodName h optionsRef
                   cacheOptionsRef)) = h"
    by (rule actualCrossOrgMethod_heap_refines [OF a b])
  show "fst (actualCrossOrgMethod_heap method orgsAndTokens apiName methodName h optionsRef
             cacheOptionsRef)
        = actualCrossOrgMethod method orgsAndTokens apiName methodName (Obj (h ! optionsRef))
            (Obj (h ! cacheOptionsRef))"
    using both by (rule conjunct1)
  show "take (length h)
           (snd (actualCrossOrgMethod_heap method orgsAndTokens apiName methodName h optionsRef
                   cacheOptionsRef)) = h"
    using both by (rule conjunct2)
qed

theorem per_org_call_options_witness:
  "Fetched (Str ''t4'')
     (Obj [(''type'', Str ''all''), (''org'', Str ''delta''), (''per_page'', Num 100)])
     (Obj [(''maxAgeSeconds'', Num 60), (''individualMaxAgeSeconds'', Num 60)])
     \<in> set (snd (actualCrossOrgMethod repos_method
                   [(''alpha'', Str ''t1''), (''delta'', Str ''t4'')] ''repos'' ''getOrgRepos''
                   (Obj [(''type'', Str ''all'')])
                   (Obj [(''maxAgeSeconds'', Num 600), (''individualMaxAgeSeconds'', Num 60)])))
 \<and> take 2 (snd (actualCrossOrgMethod_heap repos_method
                   [(''alpha'', Str ''t1''), (''delta'', Str ''t4'')] ''repos'' ''getOrgRepos''
                   [[(''type'', Str ''all'')],
                    [(''maxAgeSeconds'', Num 600), (''individualMaxAgeSeconds'', Num 60)]] 0 1))
     = [[(''type'', Str ''all'')],
        [(''maxAgeSeconds'', Num 600), (''individualMaxAgeSeconds'', Num 60)]]"
proof -
  let ?ops = "[(''type'', Str ''all'')]"
  let ?cops = "[(''maxAgeSeconds'', Num 600), (''individualMaxAgeSeconds'', Num 60)]"
  note inst = per_org_call_options [where orgsAndTokens = "[(''alpha'', Str ''t1''), (''delta'', Str ''t4'')]"
      and apiName = "''repos''" and methodName = "''getOrgRepos''" and ops = ?ops and cops = ?cops
      and h = "[?ops, ?cops]" and optionsRef = 0 and cacheOptionsRef = 1]
  have h1: "AList.clearjunk [(''alpha'', Str ''t1''), (''delta'', Str ''t4'')]
              = [(''alpha'', Str ''t1'')] @ (''delta'', Str ''t4'') # []"
    by code_simp
  have h2: "\<forall>p\<in>set [(''alpha'', Str ''t1'')]. org_ok repos_method (Obj ?ops) (Obj ?cops) p"
    by code_simp
  have lo: "localOptions_for (Obj ?ops) ''delta''
              = [(''type'', Str ''all''), (''org'', Str ''delta''), (''per_page'', Num 100)]"
    by code_simp
  have lc: "localCacheOptions_for (Obj ?cops)
              = [(''maxAgeSeconds'', Num 60), (''individualMaxAgeSeconds'', Num 60)]"
    by code_simp
  have a: "Fetched (Str ''t4'') (Obj (localOptions_for (Obj ?ops) ''delta''))
             (Obj (localCacheOptions_for (Obj ?cops)))
     \<in> set (snd (actualCrossOrgMethod repos_method
                   [(''alpha'', Str ''t1''), (''delta'', Str ''t4'')] ''repos'' ''getOrgRepos''
                   (Obj ?ops) (Obj ?cops)))"
    using conjunct1 [OF conjunct2 [OF inst]] h1 h2 by blast
  have b: "take 2 (snd (actualCrossOrgMethod_heap repos_method
                   [(''alpha'', Str ''t1''), (''delta'', Str ''t4'')] ''repos'' ''getOrgRepos''
                   [?ops, ?cops] 0 1))
     = [?ops, ?cops]"
    using conjunct2 [OF conjunct2 [OF conjunct2 [OF conjunct2 [OF inst]]]]
    by (simp add: numeral_2_eq_2)
  show ?thesis using a b by (simp only: lo lc simp_thms)
qed

section \<open>The nested aggregation\<close>


lemma localOptionsTarget_for_valid:
  assumes "innerKeyType = ''team'' \<or> innerKeyType = ''repo''" and "\<not> nullish orgEntity"
  shows "\<exists>t. localOptionsTarget_for innerKeyType orgName orgEntity = Inr t"
  using assms by (auto simp: localOptionsTarget_for_def Let_def)

lemma entity_iteratee_valid:
  assumes "innerKeyType = ''team'' \<or> innerKeyType = ''repo''"
    and "\<not> nullish orgEntity"
    and "collectionsClient collectionMethodName = Some inner"
    and "truthy (get_prop (Obj orgsAndTokens) (toLowerCase orgName))"
    and "localOptionsTarget_for innerKeyType orgName orgEntity = Inr t"
  shows "entity_iteratee collectionsClient orgsAndTokens options (localCacheOptions_for cacheOptions)
           innerKeyType collectionMethodName collectionKey flag orgName entities orgEntity
         = (Continue
              (if inner_failed (inner_result inner orgsAndTokens options cacheOptions innerKeyType
                                  orgName orgEntity)
               then entities
               else entities @ [aggregated collectionKey flag orgName orgEntity
                      (snd (inner_result inner orgsAndTokens options cacheOptions innerKeyType
                              orgName orgEntity))]),
            [Fetched (get_prop (Obj orgsAndTokens) (toLowerCase orgName))
               (Obj (inner_localOptions t options)) (Obj (localCacheOptions_for cacheOptions))])"
proof -
  obtain collectionsError innerEntities where
    r: "inner (get_prop (Obj orgsAndTokens) (toLowerCase orgName))
          (Obj (inner_localOptions t options)) (Obj (localCacheOptions_for cacheOptions))
        = (collectionsError, innerEntities)"
    by (cases "inner (get_prop (Obj orgsAndTokens) (toLowerCase orgName))
          (Obj (inner_localOptions t options)) (Obj (localCacheOptions_for cacheOptions))")
  have ir: "inner_result inner orgsAndTokens options cacheOptions innerKeyType orgName orgEntity
              = (collectionsError, innerEntities)"
    using assms(5) r by (simp add: inner_result_def)
  show ?thesis
    unfolding entity_iteratee_def ir
    using assms(3,4,5) r
    by (simp add: Let_def inner_failed_def aggregated_def del: get_prop.simps)
qed

lemma eachLimit_entities_valid:
  assumes "innerKeyType = ''team'' \<or> innerKeyType = ''repo''"
    and "collectionsClient collectionMethodName = Some inner"
    and "\<forall>orgEntity\<in>set items. \<not> nullish orgEntity
           \<and> truthy (get_prop (Obj orgsAndTokens) (toLowerCase orgName))"
  shows "fst (eachLimit_entities collectionsClient orgsAndTokens options
                (localCacheOptions_for cacheOptions) innerKeyType collectionMethodName collectionKey
                flag orgName items entities)
         = Continue (entities
             @ map (\<lambda>orgEntity. aggregated collectionKey flag orgName orgEntity
                      (snd (inner_result inner orgsAndTokens options cacheOptions innerKeyType
                              orgName orgEntity)))
                 (filter (\<lambda>orgEntity. \<not> inner_failed
                            (inner_result inner orgsAndTokens options cacheOptions innerKeyType
                               orgName orgEntity)) items))"
  using assms(3)
proof (induction items arbitrary: entities)
  case Nil
  then show ?case by simp
next
  case (Cons e items)
  from Cons.prems have ne: "\<not> nullish e"
    and tok: "truthy (get_prop (Obj orgsAndTokens) (toLowerCase orgName))" by simp_all
  obtain t where t: "localOptionsTarget_for innerKeyType orgName e = Inr t"
    using localOptionsTarget_for_valid [OF assms(1) ne] by blast
  note it = entity_iteratee_valid [where collectionsClient = collectionsClient
      and collectionMethodName = collectionMethodName and options = options
      and cacheOptions = cacheOptions and collectionKey = collectionKey and flag = flag
      and entities = entities, OF assms(1) ne assms(2) tok t]
  from Cons.prems have rest: "\<forall>orgEntity\<in>set items. \<not> nullish orgEntity
           \<and> truthy (get_prop (Obj orgsAndTokens) (toLowerCase orgName))" by simp
  let ?acc = "if inner_failed (inner_result inner orgsAndTokens options cacheOptions innerKeyType
                                  orgName e)
               then entities
               else entities @ [aggregated collectionKey flag orgName e
                      (snd (inner_result inner orgsAndTokens options cacheOptions innerKeyType
                              orgName e))]"
  obtain r log where
    run: "eachLimit_entities collectionsClient orgsAndTokens options
            (localCacheOptions_for cacheOptions) innerKeyType collectionMethodName collectionKey
            flag orgName items ?acc = (r, log)"
    by (cases "eachLimit_entities collectionsClient orgsAndTokens options
            (localCacheOptions_for cacheOptions) innerKeyType collectionMethodName collectionKey
            flag orgName items ?acc")
  have "fst (eachLimit_entities collectionsClient orgsAndTokens options
            (localCacheOptions_for cacheOptions) innerKeyType collectionMethodName collectionKey
            flag orgName (e # items) entities) = r"
    using it run by (simp del: get_prop.simps)
  moreover have "r = Continue (?acc
             @ map (\<lambda>orgEntity. aggregated collectionKey flag orgName orgEntity
                      (snd (inner_result inner orgsAndTokens options cacheOptions innerKeyType
                              orgName orgEntity)))
                 (filter (\<lambda>orgEntity. \<not> inner_failed
                            (inner_result inner orgsAndTokens options cacheOptions innerKeyType
                               orgName orgEntity)) items))"
    using Cons.IH [OF rest, of ?acc] run by simp
  ultimately show ?case by simp
qed

lemma eachLimit_orgNames_valid:
  assumes "innerKeyType = ''team'' \<or> innerKeyType = ''repo''"
    and "collectionsClient collectionMethodName = Some inner"
    and "\<forall>orgName\<in>set names. \<forall>orgEntity\<in>set (eachLimit_items (get_prop orgs orgName)).
           \<not> nullish orgEntity \<and> truthy (get_prop (Obj orgsAndTokens) (toLowerCase orgName))"
  shows "fst (eachLimit_orgNames collectionsClient orgsAndTokens options
                (localCacheOptions_for cacheOptions) innerKeyType collectionMethodName collectionKey
                flag orgs names entities)
         = Continue (entities
             @ concat (map (org_output inner orgsAndTokens options cacheOptions innerKeyType
                              collectionKey flag orgs) names))"
  using assms(3)
proof (induction names arbitrary: entities)
  case Nil
  then show ?case by simp
next
  case (Cons orgName names)
  from Cons.prems have here: "\<forall>orgEntity\<in>set (eachLimit_items (get_prop orgs orgName)).
           \<not> nullish orgEntity \<and> truthy (get_prop (Obj orgsAndTokens) (toLowerCase orgName))"
    and rest: "\<forall>orgName\<in>set names. \<forall>orgEntity\<in>set (eachLimit_items (get_prop orgs orgName)).
           \<not> nullish orgEntity \<and> truthy (get_prop (Obj orgsAndTokens) (toLowerCase orgName))"
    by simp_all
  let ?acc = "entities @ org_output inner orgsAndTokens options cacheOptions innerKeyType
                collectionKey flag orgs orgName"
  obtain r1 log1 where
    inner: "eachLimit_entities collectionsClient orgsAndTokens options
              (localCacheOptions_for cacheOptions) innerKeyType collectionMethodName collectionKey
              flag orgName (eachLimit_items (get_prop orgs orgName)) entities = (r1, log1)"
    by (cases "eachLimit_entities collectionsClient orgsAndTokens options
              (localCacheOptions_for cacheOptions) innerKeyType collectionMethodName collectionKey
              flag orgName (eachLimit_items (get_prop orgs orgName)) entities")
  have r1: "r1 = Continue ?acc"
    using eachLimit_entities_valid [where collectionsClient = collectionsClient
      and collectionMethodName = collectionMethodName and options = options
      and cacheOptions = cacheOptions and collectionKey = collectionKey and flag = flag
      and entities = entities, OF assms(1) assms(2) here] inner
    by (simp add: org_output_def)
  obtain r2 log2 where
    outer: "eachLimit_orgNames collectionsClient orgsAndTokens options
              (localCacheOptions_for cacheOptions) innerKeyType collectionMethodName collectionKey
              flag orgs names ?acc = (r2, log2)"
    by (cases "eachLimit_orgNames collectionsClient orgsAndTokens options
              (localCacheOptions_for cacheOptions) innerKeyType collectionMethodName collectionKey
              flag orgs names ?acc")
  have "fst (eachLimit_orgNames collectionsClient orgsAndTokens options
              (localCacheOptions_for cacheOptions) innerKeyType collectionMethodName collectionKey
              flag orgs (orgName # names) entities) = r2"
    using inner r1 outer by (simp add: Let_def del: get_prop.simps)
  moreover have "r2 = Continue (?acc
             @ concat (map (org_output inner orgsAndTokens options cacheOptions innerKeyType
                              collectionKey flag orgs) names))"
    using Cons.IH [OF rest, of ?acc] outer by simp
  ultimately show ?case by simp
qed

lemma entity_iteratee_fetch:
  assumes "localOptionsTarget_for innerKeyType orgName orgEntity = Inr t"
    and "collectionsClient collectionMethodName = Some inner"
    and "truthy (get_prop (Obj orgsAndTokens) (toLowerCase orgName))"
  shows "snd (entity_iteratee collectionsClient orgsAndTokens options localCacheOptions
                innerKeyType collectionMethodName collectionKey flag orgName entities orgEntity)
         = [Fetched (get_prop (Obj orgsAndTokens) (toLowerCase orgName))
              (Obj (inner_localOptions t options)) (Obj localCacheOptions)]"
  unfolding entity_iteratee_def
  using assms
  by (simp add: Let_def split: prod.splits del: get_prop.simps)

lemma entity_iteratee_no_token:
  assumes "localOptionsTarget_for innerKeyType orgName orgEntity = Inr t"
    and "\<not> truthy (get_prop (Obj orgsAndTokens) (toLowerCase orgName))"
  shows "entity_iteratee collectionsClient orgsAndTokens options localCacheOptions
                innerKeyType collectionMethodName collectionKey flag orgName entities orgEntity
         = (Abort (Error (no_token_message orgName)), [])"
  unfolding entity_iteratee_def
  using assms
  by (simp add: Let_def del: get_prop.simps)



text \<open>
  C1, as stated, fails: the listing has the teams 1 and 2 of \<open>alpha\<close>, the inner
  fetch for team 2 fails, and the output sequence holds team 1 only. Team 2 is not in
  it without its \<open>members\<close>: it is not in it at all.
\<close>

theorem inner_failure_drops_entity:
  "crossOrganizationCollection members_client [(''alpha'', Str ''t1'')] (Obj []) (Obj [])
           ''team'' (listing [(''alpha'', Arr [team 1 ''core'', team 2 ''docs''])])
           ''getTeamMembers'' ''members'' True
   = (Settles (Resolved (Obj
        [(''data'', Arr [Obj [(''organization'', Obj [(''login'', Str ''alpha'')]),
                              (''id'', Num 1), (''name'', Str ''core''),
                              (''members'', Arr [Str ''alice''])]]),
         (''headers'', Obj [])])),
      [Fetched (Str ''t1'') (Obj [(''per_page'', Num 100), (''team_id'', Num 1)]) (Obj []),
       Fetched (Str ''t1'') (Obj [(''per_page'', Num 100), (''team_id'', Num 2)]) (Obj [])])"
  by code_simp

text \<open>
  C1, amended. When the outer listing went well, the inner key type is \<open>team\<close> or
  \<open>repo\<close>, the inner method exists, no entity is \<open>undefined\<close> or \<open>null\<close>
  and every organization that has entities has a token, then the pipeline resolves
  whatever the inner fetches do: no error of an inner fetch reaches the caller. The
  output sequence is, organization by organization and in the order of the listing,
  the clones of the entities whose inner fetch did not fail, each with the inner
  collection under the collection key; an entity whose inner fetch failed is left
  out.
\<close>

theorem inner_failure_swallowed:
  assumes "outerFunction orgsAndTokens (Obj []) cacheOptions = (outerError, data)"
    and "\<not> err_truthy outerError"
    and "truthy (get_prop data ''data'')"
    and "orgs = get_prop (get_prop data ''data'') ''orgs''"
    and "\<not> nullish orgs"
    and "innerKeyType = ''team'' \<or> innerKeyType = ''repo''"
    and "collectionsClient collectionMethodName = Some inner"
    and "\<forall>orgName\<in>set (getOwnPropertyNames orgs).
           \<forall>orgEntity\<in>set (eachLimit_items (get_prop orgs orgName)).
             \<not> nullish orgEntity \<and> truthy (get_prop (Obj orgsAndTokens) (toLowerCase orgName))"
  shows "fst (crossOrganizationCollection collectionsClient orgsAndTokens options cacheOptions
                innerKeyType outerFunction collectionMethodName collectionKey flag)
         = Settles (Resolved (Obj
             [(''data'', Arr (concat (map (org_output inner orgsAndTokens options cacheOptions
                                             innerKeyType collectionKey flag orgs)
                                        (getOwnPropertyNames orgs)))),
              (''headers'', Obj [])]))"
proof -
  have td: "truthy data" using assms(3) by (rule truthy_data_truthy)
  have nn: "\<not> nullish (get_prop data ''data'')" using assms(3) by (cases "get_prop data ''data''") auto
  obtain r log where
    run: "eachLimit_orgNames collectionsClient orgsAndTokens options
            (localCacheOptions_for cacheOptions) innerKeyType collectionMethodName collectionKey
            flag orgs (getOwnPropertyNames orgs) [] = (r, log)"
    by (cases "eachLimit_orgNames collectionsClient orgsAndTokens options
            (localCacheOptions_for cacheOptions) innerKeyType collectionMethodName collectionKey
            flag orgs (getOwnPropertyNames orgs) []")
  have r: "r = Continue (concat (map (org_output inner orgsAndTokens options cacheOptions
                                             innerKeyType collectionKey flag orgs)
                                        (getOwnPropertyNames orgs)))"
    using eachLimit_orgNames_valid [where collectionsClient = collectionsClient
      and collectionMethodName = collectionMethodName and options = options
      and cacheOptions = cacheOptions and collectionKey = collectionKey and flag = flag
      and entities = "[]" and orgs = orgs and names = "getOwnPropertyNames orgs",
      OF assms(6) assms(7) assms(8)] run
    by simp
  show ?thesis
    unfolding crossOrganizationCollection_def
    using assms(1,2,3,5) td nn run r
    by (simp add: Let_def assms(4) [symmetric] del: get_prop.simps)
qed

theorem inner_failure_swallowed_witness:
  "fst (crossOrganizationCollection members_client [(''alpha'', Str ''t1'')] (Obj []) (Obj [])
          ''team'' (listing [(''alpha'', Arr [team 1 ''core'', team 2 ''docs'', team 3 ''ops''])])
          ''getTeamMembers'' ''members'' True)
   = Settles (Resolved (Obj
       [(''data'', Arr
           [Obj [(''organization'', Obj [(''login'', Str ''alpha'')]), (''id'', Num 1),
                 (''name'', Str ''core''), (''members'', Arr [Str ''alice''])],
            Obj [(''organization'', Obj [(''login'', Str ''alpha'')]), (''id'', Num 3),
                 (''name'', Str ''ops''), (''members'', Arr [Str ''alice''])]]),
        (''headers'', Obj [])]))"
proof -
  let ?orgs = "Obj [(''alpha'', Arr [team 1 ''core'', team 2 ''docs'', team 3 ''ops''])]"
  let ?data = "Obj [(''data'', Obj [(''orgs'', ?orgs)])]"
  have h1: "listing [(''alpha'', Arr [team 1 ''core'', team 2 ''docs'', team 3 ''ops''])]
              [(''alpha'', Str ''t1'')] (Obj []) (Obj []) = (ErrValue Null, ?data)"
    by code_simp
  have h2: "\<not> err_truthy (ErrValue Null)" by simp
  have h3: "truthy (get_prop ?data ''data'')" by simp
  have h4: "?orgs = get_prop (get_prop ?data ''data'') ''orgs''" by simp
  have h5: "\<not> nullish ?orgs" by simp
  have h6: "''team'' = ''team'' \<or> ''team'' = ''repo''" by simp
  have h7: "members_client ''getTeamMembers'' = Some members_method"
    by (simp add: members_client_def)
  have h8: "\<forall>orgName\<in>set (getOwnPropertyNames ?orgs).
              \<forall>orgEntity\<in>set (eachLimit_items (get_prop ?orgs orgName)).
                \<not> nullish orgEntity
                \<and> truthy (get_prop (Obj [(''alpha'', Str ''t1'')]) (toLowerCase orgName))"
    by code_simp
  have out: "concat (map (org_output members_method [(''alpha'', Str ''t1'')] (Obj []) (Obj [])
                            ''team'' ''members'' True ?orgs) (getOwnPropertyNames ?orgs))
             = [Obj [(''organization'', Obj [(''login'', Str ''alpha'')]), (''id'', Num 1),
                     (''name'', Str ''core''), (''members'', Arr [Str ''alice''])],
                Obj [(''organization'', Obj [(''login'', Str ''alpha'')]), (''id'', Num 3),
                     (''name'', Str ''ops''), (''members'', Arr [Str ''alice''])]]"
    by code_simp
  show ?thesis
    using inner_failure_swallowed [where collectionsClient = members_client
      and collectionMethodName = "''getTeamMembers''" and options = "Obj []"
      and collectionKey = "''members''" and flag = True
      and outerFunction = "listing [(''alpha'', Arr [team 1 ''core'', team 2 ''docs'', team 3 ''ops''])]"
      and orgsAndTokens = "[(''alpha'', Str ''t1'')]" and cacheOptions = "Obj []",
      OF h1 h2 h3 h4 h5 h6 h7 h8]
    by (simp only: out)
qed

text \<open>
  C3, as stated, fails: with a token registered for \<open>Contoso\<close>, the listing's
  organization \<open>contoso\<close> finds no token and the pipeline rejects.
\<close>

theorem upper_case_registration_not_found:
  "crossOrganizationCollection members_client [(''Contoso'', Str ''t1'')] (Obj []) (Obj [])
           ''team'' (listing [(''contoso'', Arr [team 1 ''core''])])
           ''getTeamMembers'' ''members'' True
   = (Settles (Rejected (Error (no_token_message ''contoso''))), [])"
  by code_simp

text \<open>
  C3, amended. The token of an entity's organization is the property of the token
  set named by the login in lower case: the keys of the token set are taken as they
  are. For an entity the \<^verbatim>\<open>switch\<close> accepts, when that property is truthy the
  inner fetch is issued with it as the token; when it is not, the loop over the
  entities of the organization ends with the error
  \<open>No token available for the org\<close>, before any fetch and without visiting the
  entities that follow.
\<close>

theorem token_lookup_lower_cases_login:
  assumes "innerKeyType = ''team'' \<or> innerKeyType = ''repo''"
    and "\<not> nullish orgEntity"
    and "collectionsClient collectionMethodName = Some inner"
  shows "(truthy (get_prop (Obj orgsAndTokens) (toLowerCase orgName)) \<longrightarrow>
            (\<exists>localOptions.
               snd (entity_iteratee collectionsClient orgsAndTokens options localCacheOptions
                      innerKeyType collectionMethodName collectionKey flag orgName entities
                      orgEntity)
               = [Fetched (get_prop (Obj orgsAndTokens) (toLowerCase orgName)) localOptions
                    (Obj localCacheOptions)]))
       \<and> (\<not> truthy (get_prop (Obj orgsAndTokens) (toLowerCase orgName)) \<longrightarrow>
            eachLimit_entities collectionsClient orgsAndTokens options localCacheOptions
              innerKeyType collectionMethodName collectionKey flag orgName (orgEntity # rest)
              entities
            = (Abort (Error (no_token_message orgName)), []))"
proof -
  obtain t where t: "localOptionsTarget_for innerKeyType orgName orgEntity = Inr t"
    using localOptionsTarget_for_valid [OF assms(1,2)] by blast
  show ?thesis
  proof (intro conjI impI)
    assume "truthy (get_prop (Obj orgsAndTokens) (toLowerCase orgName))"
    from entity_iteratee_fetch [where collectionsClient = collectionsClient
      and collectionMethodName = collectionMethodName, OF t assms(3) this]
    show "\<exists>localOptions.
               snd (entity_iteratee collectionsClient orgsAndTokens options localCacheOptions
                      innerKeyType collectionMethodName collectionKey flag orgName entities
                      orgEntity)
               = [Fetched (get_prop (Obj orgsAndTokens) (toLowerCase orgName)) localOptions
                    (Obj localCacheOptions)]"
      by blast
  next
    assume "\<not> truthy (get_prop (Obj orgsAndTokens) (toLowerCase orgName))"
    from entity_iteratee_no_token [OF t this]
    show "eachLimit_entities collectionsClient orgsAndTokens options localCacheOptions
              innerKeyType collectionMethodName collectionKey flag orgName (orgEntity # rest)
              entities
            = (Abort (Error (no_token_message orgName)), [])"
      by (simp del: get_prop.simps)
  qed
qed

theorem token_lookup_lower_cases_login_witness:
  "(\<exists>localOptions.
      snd (entity_iteratee members_client [(''contoso'', Str ''t1'')] (Obj []) [] ''team''
             ''getTeamMembers'' ''members'' True ''Contoso'' [] (team 1 ''core''))
      = [Fetched (Str ''t1'') localOptions (Obj [])])
 \<and> eachLimit_entities members_client [(''Contoso'', Str ''t1'')] (Obj []) [] ''team''
       ''getTeamMembers'' ''members'' True ''Contoso'' [team 1 ''core'', team 2 ''docs''] []
     = (Abort (Error (no_token_message ''Contoso'')), [])"
proof -
  have h1: "''team'' = ''team'' \<or> ''team'' = ''repo''" by simp
  have h2: "\<not> nullish (team 1 ''core'')" by (simp add: team_def)
  have h3: "members_client ''getTeamMembers'' = Some members_method"
    by (simp add: members_client_def)
  have found: "get_prop (Obj [(''contoso'', Str ''t1'')]) (toLowerCase ''Contoso'') = Str ''t1''"
    by code_simp
  have missing: "get_prop (Obj [(''Contoso'', Str ''t1'')]) (toLowerCase ''Contoso'') = Undefined"
    by code_simp
  have a: "\<exists>localOptions.
      snd (entity_iteratee members_client [(''contoso'', Str ''t1'')] (Obj []) [] ''team''
             ''getTeamMembers'' ''members'' True ''Contoso'' [] (team 1 ''core''))
      = [Fetched (Str ''t1'') localOptions (Obj [])]"
    using token_lookup_lower_cases_login [where collectionsClient = members_client
      and collectionMethodName = "''getTeamMembers''"
      and orgsAndTokens = "[(''contoso'', Str ''t1'')]" and orgName = "''Contoso''"
      and options = "Obj []" and localCacheOptions = "[]" and collectionKey = "''members''"
      and flag = True and entities = "[]", OF h1 h2 h3]
    by (simp only: found truthy.simps) simp
  have b: "eachLimit_entities members_client [(''Contoso'', Str ''t1'')] (Obj []) [] ''team''
       ''getTeamMembers'' ''members'' True ''Contoso'' [team 1 ''core'', team 2 ''docs''] []
     = (Abort (Error (no_token_message ''Contoso'')), [])"
    using token_lookup_lower_cases_login [where collectionsClient = members_client
      and collectionMethodName = "''getTeamMembers''"
      and orgsAndTokens = "[(''Contoso'', Str ''t1'')]" and orgName = "''Contoso''"
      and options = "Obj []" and localCacheOptions = "[]" and collectionKey = "''members''"
      and flag = True and entities = "[]" and rest = "[team 2 ''docs'']", OF h1 h2 h3]
    by (simp only: missing truthy.simps) simp
  show ?thesis using a b by (intro conjI)
qed








end
